theory Spec2Isabelle
  imports Main "HOL-Library.AList"
begin

section \<open>Python values, dictionaries and exceptions\<close>

text \<open>
  The values a document field can hold. \<open>VOid\<close> is a driver identity
  (\<^verbatim>\<open>bson.ObjectId\<close>, carrying its bytes), \<open>VDict\<close> a plain \<^verbatim>\<open>dict\<close>, \<open>VDoc\<close> an
  instance of \<^verbatim>\<open>Document\<close> (carrying its \<^verbatim>\<open>__dict__\<close>), and \<open>VObj\<close> an object of
  some other class, which the driver cannot encode. None of these values can be
  called, and none has a method of a collection or of a database. A Python \<^verbatim>\<open>dict\<close> is an association list in
  insertion order; \<^verbatim>\<open>d[k] = v\<close> is \<open>AList.update\<close> (an existing key keeps
  its place, a new key goes last) and \<^verbatim>\<open>del d[k]\<close> is \<open>AList.delete\<close>.
\<close>

datatype pyval =
    VNone
  | VBool bool
  | VInt int
  | VStr string
  | VOid "nat list"
  | VDict "(string \<times> pyval) list"
  | VDoc "(string \<times> pyval) list"
  | VObj string

type_synonym pydict = "(string \<times> pyval) list"

text \<open>
  The exceptions of \<^verbatim>\<open>mm_exceptions.py\<close> under their own names, the Python
  built-ins the covered code can raise, and the driver's own errors.
\<close>

datatype error =
    MongoDBConnectionError
  | MongoDBCollectionError
  | MongoFieldError
  | MongoDBModelExistsError
  | MondgoDBInvalidDocumentError
  | TypeError
  | AttributeError
  | KeyError
  | UnboundLocalError
  | ValueError
  | InvalidDocument
  | WriteError
  | DuplicateKeyError

definition has_key :: "string \<Rightarrow> pydict \<Rightarrow> bool" where
  \<comment> \<open>\<^verbatim>\<open>k in d\<close>\<close>
  "has_key k d = (map_of d k \<noteq> None)"

definition dict_update :: "pydict \<Rightarrow> pydict \<Rightarrow> pydict" where
  \<comment> \<open>\<^verbatim>\<open>d.update(e)\<close>: the items of \<open>e\<close> are stored into \<open>d\<close> one by one\<close>
  "dict_update d e = fold (\<lambda>(k, v). AList.update k v) e d"

definition well_formed_dict :: "pydict \<Rightarrow> bool" where
  \<comment> \<open>a Python dict holds each key once\<close>
  "well_formed_dict d = distinct (map fst d)"

section \<open>The document mapping base: construction\<close>

text \<open>
  \<^verbatim>\<open>Document.__init__(self, *args, **kwargs)\<close>, lines 98 to 118 of
  \<^verbatim>\<open>mongo_doc.py\<close>. The constructor writes a dict, \<open>d\<close>, that it has made from the
  caller's dict, so the frame of the call keeps the two apart: what the local
  \<open>d\<close> refers to (the caller's dict itself, or a dict of its own), and the
  caller's dict. \<^verbatim>\<open>d[k] = v\<close> writes the caller's dict exactly when \<open>d\<close> refers to
  it. \<^verbatim>\<open>copy.copy\<close> of a dict is a new dict that holds the items of its argument,
  the values being the argument's own values and not copies of them.
\<close>

datatype local_dict = Same_as_argument | New_dict pydict

type_synonym frame = "local_dict \<times> pydict"

definition copy :: "pydict \<Rightarrow> local_dict" where
  "copy a = New_dict a"

definition d_items :: "frame \<Rightarrow> pydict" where
  \<comment> \<open>\<^verbatim>\<open>d.items()\<close>\<close>
  "d_items fr = (case fst fr of Same_as_argument \<Rightarrow> snd fr | New_dict x \<Rightarrow> x)"

definition d_setitem :: "string \<Rightarrow> pyval \<Rightarrow> frame \<Rightarrow> frame" where
  \<comment> \<open>\<^verbatim>\<open>d[k] = v\<close>\<close>
  "d_setitem k v fr =
     (case fst fr of
        Same_as_argument \<Rightarrow> (Same_as_argument, AList.update k v (snd fr))
      | New_dict x \<Rightarrow> (New_dict (AList.update k v x), snd fr))"

definition embed_loop :: "frame \<Rightarrow> frame" where
  \<comment> \<open>lines 112 to 115: \<^verbatim>\<open>for k, v in d.items(): if isinstance(v, Document): d[k] = v.__dict__\<close>;
      only keys that \<open>d\<close> already has are assigned, so the items visited are
      those \<open>d\<close> had on entry\<close>
  "embed_loop fr =
     fold (\<lambda>(k, v) fr. case v of VDoc fs \<Rightarrow> d_setitem k (VDict fs) fr | _ \<Rightarrow> fr)
       (d_items fr) fr"

abbreviation (input) embed_item :: "string \<times> pyval \<Rightarrow> pydict \<Rightarrow> pydict" where
  \<comment> \<open>one round of the loop on a dict of the constructor's own\<close>
  "embed_item \<equiv> \<lambda>(k, v) y. case v of VDoc fs \<Rightarrow> AList.update k (VDict fs) y | _ \<Rightarrow> y"

definition embedded_to_dict :: "pyval \<Rightarrow> pyval" where
  \<comment> \<open>what the loop leaves in place of a value: the \<^verbatim>\<open>__dict__\<close> of a \<^verbatim>\<open>Document\<close>,
      one level only, and any other value itself\<close>
  "embedded_to_dict v = (case v of VDoc fs \<Rightarrow> VDict fs | _ \<Rightarrow> v)"

text \<open>
  The first argument of \<open>Document_init\<close> is the instance's \<^verbatim>\<open>__dict__\<close> on entry
  (empty for a fresh object; the model decorator's constructor fills it before
  it calls this one). The result is the instance's \<^verbatim>\<open>__dict__\<close> on exit, together
  with the caller's positional arguments as the call leaves them. The steps are
  those of the source:
  \<^item> \<^verbatim>\<open>if '_id' not in kwargs: self._id = None\<close>;
  \<^item> \<^verbatim>\<open>d = copy(args[0])\<close> when there is a first positional argument and it is a
    \<^verbatim>\<open>dict\<close>, else \<^verbatim>\<open>d = copy(kwargs)\<close>. A \<^verbatim>\<open>Document\<close> is a \<^verbatim>\<open>dict\<close> whose own items
    are empty (its fields live in \<^verbatim>\<open>__dict__\<close>), so its copy has no items;
  \<^item> the loop over \<open>d\<close>;
  \<^item> \<^verbatim>\<open>self.__dict__.update(d)\<close>.
\<close>

definition Document_init :: "pydict \<Rightarrow> pyval list \<Rightarrow> pydict \<Rightarrow> pydict \<times> pyval list" where
  "Document_init self args kwargs =
     (let self1 = (if has_key ''_id'' kwargs then self
                   else AList.update ''_id'' VNone self);
          argument = (case args of VDict a # _ \<Rightarrow> a | _ \<Rightarrow> []);
          d = (case args of
                 VDict a # _ \<Rightarrow> copy a
               | VDoc a # _ \<Rightarrow> New_dict []
               | _ \<Rightarrow> copy kwargs);
          fr = embed_loop (d, argument)
      in (dict_update self1 (d_items fr),
          (case args of VDict a # rest \<Rightarrow> VDict (snd fr) # rest | _ \<Rightarrow> args)))"

definition Document_new :: "pyval list \<Rightarrow> pydict \<Rightarrow> pydict" where
  \<comment> \<open>\<^verbatim>\<open>Document(*args, **kwargs)\<close>: a fresh object has an empty \<^verbatim>\<open>__dict__\<close>; the
      value of the call is the instance\<close>
  "Document_new args kwargs = fst (Document_init [] args kwargs)"

section \<open>The driver boundary\<close>

text \<open>
  Modelled from the spec: the document-database client of section 6 (pymongo,
  not part of the repository), restricted to the calls the covered code makes
  and to filters on the identity field. A database is its collections (name
  and documents, in insertion order; a collection exists once it is listed),
  a supply of fresh identities, and the log of the calls it has served. A call
  that raises leaves the collections and the log as they were. The library is
  taken after \<^verbatim>\<open>DataBase._db\<close> has been set.
\<close>

datatype driver_call =
    Insert_one string pydict
  | Replace_one string pyval pydict
  | Update_one_unset string pyval string
  | Find_one string pyval
  | Find_one_and_update_inc string pyval string int

record database =
  collections :: "(string \<times> pydict list) list"
  next_oid :: nat
  calls :: "driver_call list"

primrec encodable :: "pyval \<Rightarrow> bool" where
  "encodable VNone = True"
| "encodable (VBool b) = True"
| "encodable (VInt i) = True"
| "encodable (VStr s) = True"
| "encodable (VOid n) = True"
| "encodable (VDict kvs) = list_all snd (map (map_prod id encodable) kvs)"
| "encodable (VDoc kvs) = True"
| "encodable (VObj s) = False"

definition encodable_doc :: "pydict \<Rightarrow> bool" where
  \<comment> \<open>the driver raises \<^verbatim>\<open>bson.errors.InvalidDocument\<close> on any other document\<close>
  "encodable_doc doc = list_all (\<lambda>kv. encodable (snd kv)) doc"

definition list_collection_names :: "database \<Rightarrow> string list" where
  "list_collection_names db = map fst (collections db)"

definition docs_of :: "database \<Rightarrow> string \<Rightarrow> pydict list" where
  "docs_of db c = (case map_of (collections db) c of None \<Rightarrow> [] | Some ds \<Rightarrow> ds)"

definition id_matches :: "pyval \<Rightarrow> pydict \<Rightarrow> bool" where
  \<comment> \<open>the filter \<^verbatim>\<open>{'_id': v}\<close>\<close>
  "id_matches v doc = (map_of doc ''_id'' = Some v)"

fun replace_first :: "('a \<Rightarrow> bool) \<Rightarrow> ('a \<Rightarrow> 'a) \<Rightarrow> 'a list \<Rightarrow> 'a list" where
  "replace_first P f [] = []"
| "replace_first P f (x # xs) = (if P x then f x # xs else x # replace_first P f xs)"

definition served :: "driver_call \<Rightarrow> database \<Rightarrow> database" where
  "served call db = db\<lparr>calls := calls db @ [call]\<rparr>"

definition put_docs :: "string \<Rightarrow> pydict list \<Rightarrow> database \<Rightarrow> database" where
  "put_docs c ds db = db\<lparr>collections := AList.update c ds (collections db)\<rparr>"

definition fresh_oid :: "nat \<Rightarrow> nat list" where
  \<comment> \<open>the twelve bytes of a generated identity, here the supply's counter\<close>
  "fresh_oid n = map (\<lambda>i. (n div 256 ^ (11 - i)) mod 256) [0..<12]"

definition insert_one ::
    "string \<Rightarrow> pydict \<Rightarrow> database \<Rightarrow> (error + pyval) \<times> pydict \<times> database" where
  \<comment> \<open>\<^verbatim>\<open>insert_one(document)\<close>: the driver first writes a fresh \<^verbatim>\<open>_id\<close> into a document
      that has none (the document is the caller's dict, so the caller sees it),
      then encodes and sends it; the result is \<^verbatim>\<open>inserted_id\<close>, with the document
      and the database as the call leaves them\<close>
  "insert_one c doc db =
     (let fresh = (map_of doc ''_id'' = None);
          oid = (case map_of doc ''_id'' of
                   None \<Rightarrow> VOid (fresh_oid (next_oid db))
                 | Some v \<Rightarrow> v);
          doc1 = (if fresh then AList.update ''_id'' oid doc else doc);
          db1 = (if fresh then db\<lparr>next_oid := Suc (next_oid db)\<rparr> else db)
      in if \<not> encodable_doc doc1 then (Inl InvalidDocument, doc1, db1)
         else if list_ex (id_matches oid) (docs_of db c) then (Inl DuplicateKeyError, doc1, db1)
         else (Inr oid, doc1,
               served (Insert_one c doc) (put_docs c (docs_of db c @ [doc1]) db1)))"

definition replace_one :: "string \<Rightarrow> pyval \<Rightarrow> pydict \<Rightarrow> database \<Rightarrow> error + (nat \<times> database)" where
  \<comment> \<open>\<^verbatim>\<open>replace_one({'_id': v}, doc)\<close>, no upsert; the result is \<^verbatim>\<open>matched_count\<close>\<close>
  "replace_one c v doc db =
     (if \<not> encodable_doc doc then Inl InvalidDocument
      else if list_ex (id_matches v) (docs_of db c)
      then Inr (1, served (Replace_one c v doc)
                     (put_docs c (replace_first (id_matches v) (\<lambda>_. doc) (docs_of db c)) db))
      else Inr (0, served (Replace_one c v doc) db))"

definition update_one_unset :: "string \<Rightarrow> pyval \<Rightarrow> string \<Rightarrow> database \<Rightarrow> error + (nat \<times> database)" where
  \<comment> \<open>\<^verbatim>\<open>update_one({'_id': v}, {'$unset': {field: ''}})\<close>; the identity field is immutable\<close>
  "update_one_unset c v field db =
     (if list_ex (id_matches v) (docs_of db c)
      then (if field = ''_id'' then Inl WriteError
            else Inr (1, served (Update_one_unset c v field)
                           (put_docs c (replace_first (id_matches v) (AList.delete field) (docs_of db c)) db)))
      else Inr (0, served (Update_one_unset c v field) db))"

definition find_one :: "string \<Rightarrow> pyval \<Rightarrow> database \<Rightarrow> pydict option \<times> database" where
  \<comment> \<open>\<^verbatim>\<open>find_one({'_id': v})\<close>: the first match, or \<^verbatim>\<open>None\<close>\<close>
  "find_one c v db = (List.find (id_matches v) (docs_of db c), served (Find_one c v) db)"

definition inc_field :: "string \<Rightarrow> int \<Rightarrow> pydict \<Rightarrow> error + pydict" where
  \<comment> \<open>\<^verbatim>\<open>$inc\<close>: a missing field starts at the increment, a non-numeric one is an error\<close>
  "inc_field field n doc =
     (case map_of doc field of
        None \<Rightarrow> Inr (AList.update field (VInt n) doc)
      | Some (VInt m) \<Rightarrow> Inr (AList.update field (VInt (m + n)) doc)
      | Some _ \<Rightarrow> Inl WriteError)"

definition find_one_and_update_inc ::
    "string \<Rightarrow> pyval \<Rightarrow> string \<Rightarrow> int \<Rightarrow> database \<Rightarrow> error + (pydict \<times> database)" where
  \<comment> \<open>\<^verbatim>\<open>find_one_and_update({'_id': v}, {'$inc': {field: n}}, upsert=True, return_document=True)\<close>:
      one atomic step that returns the document as it is after the update\<close>
  "find_one_and_update_inc c v field n db =
     (case List.find (id_matches v) (docs_of db c) of
        None \<Rightarrow>
          (let doc = [(''_id'', v), (field, VInt n)]
           in Inr (doc, served (Find_one_and_update_inc c v field n)
                          (put_docs c (docs_of db c @ [doc]) db)))
      | Some old \<Rightarrow>
          (case inc_field field n old of
             Inl e \<Rightarrow> Inl e
           | Inr doc \<Rightarrow>
               Inr (doc, served (Find_one_and_update_inc c v field n)
                           (put_docs c (replace_first (id_matches v) (\<lambda>_. doc) (docs_of db c)) db))))"

section \<open>The document mapping base: persistence\<close>

text \<open>
  A mapped class, as far as the covered code reads it: its name, the class
  attribute \<^verbatim>\<open>collection\<close> (\<^verbatim>\<open>None\<close> on \<^verbatim>\<open>Document\<close> itself, else the name of the
  bound collection of the database), its \<^verbatim>\<open>__annotations__\<close> in declaration
  order, the names \<^verbatim>\<open>hasattr\<close> finds on the class, and whether it is the
  \<^verbatim>\<open>NewClass\<close> of the model decorator, which overrides \<^verbatim>\<open>__init__\<close> and
  \<^verbatim>\<open>__setattr__\<close>.
\<close>

datatype pytype = TInt | TStr | TBool | TDict

record mapped_class =
  class_name :: string
  collection :: "string option"
  annotations :: "(string \<times> pytype) list"
  class_attrs :: "string list"
  decorated :: bool

definition truthy :: "string option \<Rightarrow> bool" where
  \<comment> \<open>\<^verbatim>\<open>if s:\<close> for \<^verbatim>\<open>s: str | None\<close>\<close>
  "truthy s = (case s of None \<Rightarrow> False | Some x \<Rightarrow> x \<noteq> [])"

text \<open>
  \<^verbatim>\<open>Document._get_auto_id(self, sequence_name, increment=2)\<close>, lines 123 to 150
  (an Isabelle name cannot start with an underscore), with \<^verbatim>\<open>self._db\<close> the
  database. The result is \<^verbatim>\<open>updated_record['sequence_value']\<close>, which the update
  has just set.
\<close>

definition get_auto_id :: "string \<Rightarrow> int \<Rightarrow> database \<Rightarrow> error + (pyval \<times> database)" where
  "get_auto_id sequence_name increment db =
     (if ''counters'' \<notin> set (list_collection_names db) then Inl MongoDBCollectionError
      else
        case find_one_and_update_inc ''counters'' (VStr sequence_name)
               ''sequence_value'' increment db of
          Inl e \<Rightarrow> Inl e
        | Inr (updated_record, db') \<Rightarrow>
            (case map_of updated_record ''sequence_value'' of
               None \<Rightarrow> Inl KeyError
             | Some v \<Rightarrow> Inr (v, db')))"

text \<open>
  \<^verbatim>\<open>Document.save(self, auto_field=None, auto_key=None)\<close>, lines 152 to 177. The
  instance and the database are returned with the outcome, so that what a
  failing call has already written stays visible. On the insert path the
  source returns \<^verbatim>\<open>self\<close>, on the replace path the driver's update result (its
  \<^verbatim>\<open>matched_count\<close> here). \<^verbatim>\<open>self._id\<close> on an instance without that field raises
  \<^verbatim>\<open>AttributeError\<close>. Only \<^verbatim>\<open>bson.errors.InvalidDocument\<close> is caught and
  translated; any other error passes through. The document handed to
  \<^verbatim>\<open>insert_one\<close> is \<^verbatim>\<open>self.__dict__\<close> itself, so the instance is what the driver
  leaves of it: when the insert fails, line 170 has removed \<open>_id\<close> and the
  driver has already written a fresh one. The default increment of
  \<^verbatim>\<open>_get_auto_id\<close> is 2.
\<close>

datatype save_result = Returned_self | Update_result nat

text \<open>
  \<^verbatim>\<open>self.collection\<close>, as lines 164, 171, 175 and 186 read it: the instance's
  \<^verbatim>\<open>__dict__\<close> comes first, so a field named \<open>collection\<close> hides the class
  attribute. The value read is \<^verbatim>\<open>None\<close>, a collection of the database, or a field
  value, which has none of a collection's methods.
\<close>

datatype collection_ref = Is_None | Is_Collection string | Is_Value pyval

definition self_collection :: "mapped_class \<Rightarrow> pydict \<Rightarrow> collection_ref" where
  "self_collection cls self =
     (case map_of self ''collection'' of
        Some VNone \<Rightarrow> Is_None
      | Some v \<Rightarrow> Is_Value v
      | None \<Rightarrow> (case collection cls of None \<Rightarrow> Is_None | Some c \<Rightarrow> Is_Collection c))"

definition save_document ::
    "mapped_class \<Rightarrow> pydict \<Rightarrow> database \<Rightarrow> (error + save_result) \<times> pydict \<times> database" where
  \<comment> \<open>lines 164 to 177: the part of \<^verbatim>\<open>save\<close> after the auto-increment field\<close>
  "save_document cls self db =
     (case self_collection cls self of
        Is_None \<Rightarrow> (Inl MongoDBCollectionError, self, db)
      | Is_Value x \<Rightarrow>
          (case map_of self ''_id'' of
             None \<Rightarrow> (Inl AttributeError, self, db)
           | Some VNone \<Rightarrow> (Inl AttributeError, AList.delete ''_id'' self, db)
           | Some v \<Rightarrow> (Inl AttributeError, self, db))
      | Is_Collection c \<Rightarrow>
          (case map_of self ''_id'' of
             None \<Rightarrow> (Inl AttributeError, self, db)
           | Some VNone \<Rightarrow>
               (case insert_one c (AList.delete ''_id'' self) db of
                  (Inl InvalidDocument, self1, db') \<Rightarrow>
                    (Inl MondgoDBInvalidDocumentError, self1, db')
                | (Inl e, self1, db') \<Rightarrow> (Inl e, self1, db')
                | (Inr inserted_id, self1, db') \<Rightarrow>
                    (Inr Returned_self, AList.update ''_id'' inserted_id self1, db'))
           | Some v \<Rightarrow>
               (case replace_one c v self db of
                  Inl InvalidDocument \<Rightarrow> (Inl MondgoDBInvalidDocumentError, self, db)
                | Inl e \<Rightarrow> (Inl e, self, db)
                | Inr (n, db') \<Rightarrow> (Inr (Update_result n), self, db'))))"

text \<open>
  Line 162, \<^verbatim>\<open>self.__dict__[auto_field] = self._get_auto_id(auto_key)\<close>, reads
  \<^verbatim>\<open>_get_auto_id\<close> through the instance, and the method reads \<^verbatim>\<open>self._db\<close>: a field
  of either name hides the class's. A field value cannot be called
  (\<^verbatim>\<open>TypeError\<close>) and has no \<^verbatim>\<open>list_collection_names\<close> (\<^verbatim>\<open>AttributeError\<close>).
\<close>

definition self_get_auto_id ::
    "pydict \<Rightarrow> string \<Rightarrow> database \<Rightarrow> error + (pyval \<times> database)" where
  "self_get_auto_id self auto_key db =
     (if has_key ''_get_auto_id'' self then Inl TypeError
      else if has_key ''_db'' self then Inl AttributeError
      else get_auto_id auto_key 2 db)"

definition save ::
    "mapped_class \<Rightarrow> string option \<Rightarrow> string option \<Rightarrow> pydict \<Rightarrow> database
       \<Rightarrow> (error + save_result) \<times> pydict \<times> database" where
  "save cls auto_field auto_key self db =
     (if truthy auto_field then
        (if \<not> truthy auto_key then (Inl MongoFieldError, self, db)
         else
           case self_get_auto_id self (the auto_key) db of
             Inl e \<Rightarrow> (Inl e, self, db)
           | Inr (v, db') \<Rightarrow> save_document cls (AList.update (the auto_field) v self) db')
      else save_document cls self db)"

text \<open>
  \<^verbatim>\<open>Document.delete_field(self, field)\<close>, lines 179 to 188. \<^verbatim>\<open>self.collection\<close> is
  read, and \<^verbatim>\<open>update_one\<close> looked up on it, before the arguments of the call are
  evaluated, so \<^verbatim>\<open>None\<close> or a field value there raises \<^verbatim>\<open>AttributeError\<close> first. The
  method returns \<^verbatim>\<open>None\<close> and never writes \<^verbatim>\<open>self.__dict__\<close>.
\<close>

definition delete_field ::
    "mapped_class \<Rightarrow> string \<Rightarrow> pydict \<Rightarrow> database \<Rightarrow> (error + unit) \<times> pydict \<times> database" where
  "delete_field cls field self db =
     (if has_key field self then
        (case self_collection cls self of
           Is_None \<Rightarrow> (Inl AttributeError, self, db)
         | Is_Value x \<Rightarrow> (Inl AttributeError, self, db)
         | Is_Collection c \<Rightarrow>
             (case map_of self ''_id'' of
                None \<Rightarrow> (Inl AttributeError, self, db)
              | Some v \<Rightarrow>
                  (case update_one_unset c v field db of
                     Inl e \<Rightarrow> (Inl e, self, db)
                   | Inr (n, db') \<Rightarrow> (Inr (), self, db'))))
      else (Inl MongoFieldError, self, db))"

text \<open>
  The driver's identity constructor \<^verbatim>\<open>bson.ObjectId\<close> on a string (the driver is
  not part of the repository): a string of length 24 is handed to
  \<^verbatim>\<open>bytes.fromhex\<close>, which reads pairs of hexadecimal digits and skips ASCII
  whitespace before a pair and at the end; the identity is the bytes read. Any
  other string raises \<^verbatim>\<open>InvalidId\<close>, which is \<open>None\<close> here.
\<close>

definition hex_digit :: "char \<Rightarrow> nat option" where
  "hex_digit c =
     (let n = (of_char c :: nat)
      in if 48 \<le> n \<and> n \<le> 57 then Some (n - 48)
         else if 97 \<le> n \<and> n \<le> 102 then Some (n - 87)
         else if 65 \<le> n \<and> n \<le> 70 then Some (n - 55)
         else None)"

definition is_space :: "char \<Rightarrow> bool" where
  \<comment> \<open>tab, line feed, vertical tab, form feed, carriage return, space\<close>
  "is_space c = (let n = (of_char c :: nat) in (9 \<le> n \<and> n \<le> 13) \<or> n = 32)"

fun fromhex :: "string \<Rightarrow> nat list option" where
  "fromhex [] = Some []"
| "fromhex [c] = (if is_space c then Some [] else None)"
| "fromhex (c # d # cs) =
     (if is_space c then fromhex (d # cs)
      else case hex_digit c of
             None \<Rightarrow> None
           | Some hi \<Rightarrow>
               (case hex_digit d of
                  None \<Rightarrow> None
                | Some lo \<Rightarrow> map_option ((#) (16 * hi + lo)) (fromhex cs)))"

definition ObjectId :: "string \<Rightarrow> nat list option" where
  "ObjectId s = (if length s = 24 then fromhex s else None)"

text \<open>
  \<^verbatim>\<open>Document.get_by_id(cls, _id)\<close>, lines 190 to 200, a class method of the
  classes whose constructor is \<^verbatim>\<open>Document.__init__\<close>. \<^verbatim>\<open>cls.collection.find_one\<close> is
  looked up first, then \<^verbatim>\<open>bson.ObjectId(_id)\<close> is built (\<^verbatim>\<open>InvalidId\<close> is caught
  and gives \<^verbatim>\<open>None\<close>), then the driver's answer, a document or \<^verbatim>\<open>None\<close>, is
  handed to the constructor as its one positional argument.
\<close>

definition get_by_id ::
    "mapped_class \<Rightarrow> string \<Rightarrow> database \<Rightarrow> (error + pydict option) \<times> database" where
  "get_by_id cls s db =
     (case collection cls of
        None \<Rightarrow> (Inl AttributeError, db)
      | Some c \<Rightarrow>
          (case ObjectId s of
             None \<Rightarrow> (Inr None, db)
           | Some oid \<Rightarrow>
               (case find_one c (VOid oid) db of
                  (None, db') \<Rightarrow> (Inr (Some (Document_new [VNone] [])), db')
                | (Some doc, db') \<Rightarrow> (Inr (Some (Document_new [VDict doc] [])), db'))))"

section \<open>Class-creation utilities\<close>

text \<open>
  A plain annotated class as the caller writes it: name, annotations in
  declaration order, and the names of its class attributes (an annotation
  without a value creates none).
\<close>

record plain_class =
  plain_name :: string
  plain_annotations :: "(string \<times> pytype) list"
  plain_attrs :: "string list"

definition Document_attrs :: "string list" where
  \<comment> \<open>the names \<^verbatim>\<open>Document\<close> and \<^verbatim>\<open>DataBase\<close> define in \<^verbatim>\<open>mongo_doc.py\<close>\<close>
  "Document_attrs =
     [''collection'', ''_db'', ''_models'', ''_get_auto_id'', ''save'', ''delete_field'',
      ''get_by_id'', ''insert_many'', ''all'', ''find'', ''find_in'', ''delete'',
      ''document_count'']"

definition dict_attrs :: "string list" where
  \<comment> \<open>the names an instance of a subclass of \<^verbatim>\<open>dict\<close> inherits (Python 3.11)\<close>
  "dict_attrs =
     [''__class__'', ''__class_getitem__'', ''__contains__'', ''__delattr__'',
      ''__delitem__'', ''__dict__'', ''__dir__'', ''__doc__'', ''__eq__'', ''__format__'',
      ''__ge__'', ''__getattribute__'', ''__getitem__'', ''__getstate__'', ''__gt__'',
      ''__hash__'', ''__init__'', ''__init_subclass__'', ''__ior__'', ''__iter__'',
      ''__le__'', ''__len__'', ''__lt__'', ''__module__'', ''__ne__'', ''__new__'',
      ''__or__'', ''__reduce__'', ''__reduce_ex__'', ''__repr__'', ''__reversed__'',
      ''__ror__'', ''__setattr__'', ''__setitem__'', ''__sizeof__'', ''__str__'',
      ''__subclasshook__'', ''__weakref__'', ''clear'', ''copy'', ''fromkeys'', ''get'',
      ''items'', ''keys'', ''pop'', ''popitem'', ''setdefault'', ''update'', ''values'']"

definition annotations_attr :: "plain_class \<Rightarrow> string list" where
  \<comment> \<open>a class body with annotations has \<^verbatim>\<open>__annotations__\<close> in its namespace, where
      instances of its subclasses find it\<close>
  "annotations_attr cls = (if plain_annotations cls = [] then [] else [''__annotations__''])"

definition isinstance :: "pyval \<Rightarrow> pytype \<Rightarrow> bool" where
  \<comment> \<open>\<^verbatim>\<open>bool\<close> is a subclass of \<^verbatim>\<open>int\<close>, \<^verbatim>\<open>Document\<close> a subclass of \<^verbatim>\<open>dict\<close>\<close>
  "isinstance v t =
     (case t of
        TInt \<Rightarrow> (case v of VInt _ \<Rightarrow> True | VBool _ \<Rightarrow> True | _ \<Rightarrow> False)
      | TStr \<Rightarrow> (case v of VStr _ \<Rightarrow> True | _ \<Rightarrow> False)
      | TBool \<Rightarrow> (case v of VBool _ \<Rightarrow> True | _ \<Rightarrow> False)
      | TDict \<Rightarrow> (case v of VDict _ \<Rightarrow> True | VDoc _ \<Rightarrow> True | _ \<Rightarrow> False))"

definition zero_value :: "pytype \<Rightarrow> pyval" where
  \<comment> \<open>\<^verbatim>\<open>type_()\<close>: \<^verbatim>\<open>int() == 0\<close>, \<^verbatim>\<open>str() == ''\<close>, \<^verbatim>\<open>bool() == False\<close>, \<^verbatim>\<open>dict() == {}\<close>\<close>
  "zero_value t =
     (case t of TInt \<Rightarrow> VInt 0 | TStr \<Rightarrow> VStr [] | TBool \<Rightarrow> VBool False | TDict \<Rightarrow> VDict [])"

text \<open>
  The loop of \<^verbatim>\<open>NewClass.__init__\<close>, lines 39 to 49 of \<^verbatim>\<open>model_instance.py\<close>: each
  annotated field takes its value from the keyword of its name (popped), else
  from the next positional argument, else from \<^verbatim>\<open>type_()\<close>; a value that is not
  an instance of the annotated type raises \<^verbatim>\<open>TypeError\<close>. The result is the
  instance's \<^verbatim>\<open>__dict__\<close> with the arguments that are left.
\<close>

fun bind_fields ::
    "(string \<times> pytype) list \<Rightarrow> pyval list \<Rightarrow> pydict \<Rightarrow> pydict
       \<Rightarrow> error + (pydict \<times> pyval list \<times> pydict)" where
  "bind_fields [] args kwargs self = Inr (self, args, kwargs)"
| "bind_fields ((name, ty) # rest) args kwargs self =
     (case map_of kwargs name of
        Some value \<Rightarrow>
          (if \<not> isinstance value ty then Inl TypeError
           else bind_fields rest args (AList.delete name kwargs) (AList.update name value self))
      | None \<Rightarrow>
          (case args of
             value # args' \<Rightarrow>
               (if \<not> isinstance value ty then Inl TypeError
                else bind_fields rest args' kwargs (AList.update name value self))
           | [] \<Rightarrow>
               (if \<not> isinstance (zero_value ty) ty then Inl TypeError
                else bind_fields rest [] kwargs (AList.update name (zero_value ty) self))))"


definition hasattr :: "mapped_class \<Rightarrow> pydict \<Rightarrow> string \<Rightarrow> bool" where
  \<comment> \<open>the instance's \<^verbatim>\<open>__dict__\<close>, then the class\<close>
  "hasattr cls self name = (has_key name self \<or> name \<in> set (class_attrs cls))"

definition object_setattr :: "pydict \<Rightarrow> string \<Rightarrow> pyval \<Rightarrow> pydict" where
  \<comment> \<open>the inherited \<^verbatim>\<open>__setattr__\<close> stores into \<^verbatim>\<open>__dict__\<close>\<close>
  "object_setattr self name value = AList.update name value self"

definition NewClass_setattr ::
    "mapped_class \<Rightarrow> pydict \<Rightarrow> string \<Rightarrow> pyval \<Rightarrow> error + pydict" where
  \<comment> \<open>lines 55 to 58 of \<^verbatim>\<open>model_instance.py\<close>\<close>
  "NewClass_setattr cls self name value =
     (if \<not> hasattr cls self name then Inl AttributeError
      else Inr (object_setattr self name value))"

definition setattr :: "mapped_class \<Rightarrow> pydict \<Rightarrow> string \<Rightarrow> pyval \<Rightarrow> error + pydict" where
  \<comment> \<open>\<^verbatim>\<open>instance.name = value\<close>: only \<^verbatim>\<open>NewClass\<close> overrides \<^verbatim>\<open>__setattr__\<close>\<close>
  "setattr cls self name value =
     (if decorated cls then NewClass_setattr cls self name value
      else Inr (object_setattr self name value))"

text \<open>
  \<^verbatim>\<open>model(collection_name)(cls)\<close>, lines 26 to 63: \<^verbatim>\<open>NewClass(Document, cls)\<close> with the
  two methods above. The class statement is decorated, so inside \<^verbatim>\<open>__init__\<close> the
  name \<^verbatim>\<open>NewClass\<close> is the wrapper function that \<^verbatim>\<open>mongo_check_and_connect\<close>
  returned, and \<^verbatim>\<open>NewClass.collection = ...\<close> (line 52) sets an attribute of that
  function: the class attribute \<^verbatim>\<open>collection\<close> stays the \<^verbatim>\<open>None\<close> inherited from
  \<^verbatim>\<open>Document\<close>.
\<close>

definition model :: "string \<Rightarrow> plain_class \<Rightarrow> mapped_class" where
  "model collection_name cls =
     \<lparr>class_name = plain_name cls,
      collection = None,
      annotations = plain_annotations cls,
      class_attrs = Document_attrs @ dict_attrs @ plain_attrs cls @ annotations_attr cls,
      decorated = True\<rparr>"

definition lower_char :: "char \<Rightarrow> char" where
  \<comment> \<open>\<^verbatim>\<open>str.lower\<close> on ASCII letters\<close>
  "lower_char c =
     (let n = (of_char c :: nat) in if 65 \<le> n \<and> n \<le> 90 then char_of (n + 32) else c)"

text \<open>
  \<^verbatim>\<open>register_model(cls, collection_name=None)\<close>, lines 304 to 323 of
  \<^verbatim>\<open>mongo_doc.py\<close>: \<^verbatim>\<open>Document\<close> is put in front of the class's bases, each
  annotated name becomes a class attribute (\<^verbatim>\<open>setattr(cls, k, v)\<close>), and the
  collection is bound, by default under the lower-cased class name. No method is
  overridden. \<^verbatim>\<open>create_collection_class\<close>, lines 287 to 301, makes a subclass of
  \<^verbatim>\<open>Document\<close> with the collection bound.
\<close>

definition register_model :: "plain_class \<Rightarrow> string option \<Rightarrow> mapped_class" where
  "register_model cls collection_name =
     \<lparr>class_name = plain_name cls,
      collection = Some (case collection_name of
                           None \<Rightarrow> map lower_char (plain_name cls)
                         | Some c \<Rightarrow> c),
      annotations = plain_annotations cls,
      class_attrs = Document_attrs @ dict_attrs @ plain_attrs cls @ annotations_attr cls
                      @ [''__slots__''] @ map fst (plain_annotations cls),
      decorated = False\<rparr>"

definition create_collection_class :: "string \<Rightarrow> string option \<Rightarrow> mapped_class" where
  "create_collection_class name collection_name =
     \<lparr>class_name = name,
      collection = Some (case collection_name of None \<Rightarrow> name | Some c \<Rightarrow> c),
      annotations = [],
      class_attrs = Document_attrs @ dict_attrs,
      decorated = False\<rparr>"

section \<open>The connection manager\<close>

text \<open>
  \<^verbatim>\<open>init_db(connection_str, database, retries=3, retry_delay=2)\<close>, lines 353 to
  372. The server is a function from the number of the attempt to whether
  \<^verbatim>\<open>MongoClient(...).server_info()\<close> answers (\<open>True\<close>) or raises
  \<^verbatim>\<open>ServerSelectionTimeoutError\<close> (\<open>False\<close>). The trace counts the attempts and
  lists the arguments of \<^verbatim>\<open>time.sleep\<close>, which raises \<^verbatim>\<open>ValueError\<close> on a negative
  one. The loop yields \<open>Inr True\<close> when it has left through \<^verbatim>\<open>break\<close> and
  \<open>Inr False\<close> when \<^verbatim>\<open>range(retries)\<close> ran out, in which case \<^verbatim>\<open>client\<close> was
  never assigned and line 372 raises \<^verbatim>\<open>UnboundLocalError\<close>.
\<close>

record trace =
  attempts :: nat
  sleeps :: "int list"

fun connect_loop ::
    "(nat \<Rightarrow> bool) \<Rightarrow> int \<Rightarrow> int \<Rightarrow> nat list \<Rightarrow> trace \<Rightarrow> (error + bool) \<times> trace" where
  "connect_loop server retries retry_delay [] t = (Inr False, t)"
| "connect_loop server retries retry_delay (i # is) t =
     (let t1 = t\<lparr>attempts := Suc (attempts t)\<rparr>
      in if server i then (Inr True, t1)
         else if int i = retries - 1 then (Inl MongoDBConnectionError, t1)
         else if retry_delay ^ i < 0 then (Inl ValueError, t1)
         else connect_loop server retries retry_delay is
                (t1\<lparr>sleeps := sleeps t1 @ [retry_delay ^ i]\<rparr>))"

definition init_db :: "(nat \<Rightarrow> bool) \<Rightarrow> int \<Rightarrow> int \<Rightarrow> (error + unit) \<times> trace" where
  "init_db server retries retry_delay =
     (case connect_loop server retries retry_delay [0..<nat retries]
             \<lparr>attempts = 0, sleeps = []\<rparr> of
        (Inl e, t) \<Rightarrow> (Inl e, t)
      | (Inr False, t) \<Rightarrow> (Inl UnboundLocalError, t)
      | (Inr True, t) \<Rightarrow> (Inr (), t))"

section \<open>Positional arguments of the model constructor\<close>


section \<open>Observations of the persisted state\<close>

definition stored_document :: "database \<Rightarrow> string \<Rightarrow> pyval \<Rightarrow> pydict option" where
  \<comment> \<open>the record of a collection that carries a given identity\<close>
  "stored_document db c v = List.find (id_matches v) (docs_of db c)"

definition counter_value :: "database \<Rightarrow> string \<Rightarrow> pyval option" where
  \<comment> \<open>the \<open>sequence_value\<close> of the counter document of a sequence\<close>
  "counter_value db sequence_name =
     (case stored_document db ''counters'' (VStr sequence_name) of
        None \<Rightarrow> None
      | Some doc \<Rightarrow> map_of doc ''sequence_value'')"

definition counter_well_formed :: "database \<Rightarrow> string \<Rightarrow> bool" where
  \<comment> \<open>section 6: a counter record is \<^verbatim>\<open>{_id: <name>, sequence_value: <integer>}\<close>;
      a sequence without a record yet, or a record without the field, is started
      by the upsert\<close>
  "counter_well_formed db sequence_name =
     (case counter_value db sequence_name of
        None \<Rightarrow> True
      | Some (VInt n) \<Rightarrow> True
      | Some _ \<Rightarrow> False)"

definition counter_before :: "database \<Rightarrow> string \<Rightarrow> int" where
  "counter_before db sequence_name =
     (case counter_value db sequence_name of Some (VInt n) \<Rightarrow> n | _ \<Rightarrow> 0)"

definition reads_class_attributes :: "pydict \<Rightarrow> bool" where
  \<comment> \<open>no field of the instance hides an attribute that \<^verbatim>\<open>save\<close> reads through
      \<^verbatim>\<open>self\<close>\<close>
  "reads_class_attributes self =
     (\<not> has_key ''collection'' self \<and> \<not> has_key ''_db'' self
      \<and> \<not> has_key ''_get_auto_id'' self)"

section \<open>Facts about dictionaries\<close>

lemma map_of_dict_update:
  "map_of (dict_update d e) = map_of d ++ map_of (rev e)"
  unfolding dict_update_def
proof (induction e arbitrary: d)
  case Nil
  show ?case by simp
next
  case (Cons p e)
  obtain k v where p: "p = (k, v)" by (cases p)
  have "map_of (fold (\<lambda>(k, v). AList.update k v) e (AList.update k v d))
        = map_of (AList.update k v d) ++ map_of (rev e)"
    using Cons.IH .
  also have "\<dots> = map_of d ++ map_of (rev e @ [(k, v)])"
    by (simp add: update_conv' map_add_upd_left fun_eq_iff map_add_def split: option.splits)
  finally show ?case by (simp add: p)
qed

lemma map_of_rev_distinct:
  "distinct (map fst e) \<Longrightarrow> map_of (rev e) = map_of e"
  by (rule map_of_inject_set[THEN iffD2]) (simp_all add: rev_map[symmetric])

lemma map_of_map_values:
  "map_of (map (\<lambda>(k, v). (k, f v)) d) k = map_option f (map_of d k)"
  by (induction d) auto

lemma map_fst_map_values:
  "map fst (map (\<lambda>(k, v). (k, f v)) d) = map fst d"
  by (induction d) auto

section \<open>Connection bootstrap\<close>

text \<open>
  The retry loop at its bound: when \<open>retries\<close> is at least 1, the delay base is not
  negative and every attempt times out, \<^verbatim>\<open>init_db\<close> raises
  \<^verbatim>\<open>MongoDBConnectionError\<close> after exactly \<open>retries\<close> attempts, having slept
  \<open>retry_delay ^ i\<close> after attempt \<open>i\<close> for every attempt but the last.
\<close>

lemma connect_loop_all_fail:
  assumes "0 \<le> retry_delay" and "\<forall>i. \<not> server i" and "int (k + n) = retries"
  shows "connect_loop server retries retry_delay [k..<k + n] t =
           (if n = 0 then (Inr False, t)
            else (Inl MongoDBConnectionError,
                  \<lparr>attempts = attempts t + n,
                   sleeps = sleeps t @ map (\<lambda>i. retry_delay ^ i) [k..<k + n - 1]\<rparr>))"
  using assms
proof (induction n arbitrary: k t)
  case 0
  show ?case by simp
next
  case (Suc n)
  have up: "[k..<k + Suc n] = k # [Suc k..<Suc k + n]"
    by (simp add: upt_conv_Cons)
  have nonneg: "\<not> retry_delay ^ k < 0"
    using Suc.prems(1) by (simp add: not_less)
  define t1 where "t1 = t\<lparr>attempts := Suc (attempts t)\<rparr>"
  show ?case
  proof (cases "n = 0")
    case True
    then have "int k = retries - 1" using Suc.prems(3) by simp
    with True Suc.prems(2) show ?thesis by (simp add: Let_def)
  next
    case False
    then have ne: "int k \<noteq> retries - 1" using Suc.prems(3) by simp
    have "int (Suc k + n) = retries" using Suc.prems(3) by simp
    from Suc.IH[OF Suc.prems(1) Suc.prems(2) this]
    have IH: "\<And>t. connect_loop server retries retry_delay [Suc k..<Suc k + n] t =
                (Inl MongoDBConnectionError,
                 \<lparr>attempts = attempts t + n,
                  sleeps = sleeps t @ map (\<lambda>i. retry_delay ^ i) [Suc k..<Suc k + n - 1]\<rparr>)"
      using False by simp
    have tail: "[k..<k + Suc n - 1] = k # [Suc k..<Suc k + n - 1]"
      using False by (simp add: upt_conv_Cons)
    have step: "connect_loop server retries retry_delay (k # [Suc k..<Suc k + n]) t =
                connect_loop server retries retry_delay [Suc k..<Suc k + n]
                  (t1\<lparr>sleeps := sleeps t1 @ [retry_delay ^ k]\<rparr>)"
      unfolding t1_def connect_loop.simps Let_def
      using Suc.prems(2) ne nonneg by (simp only: if_False)
    show ?thesis
      unfolding up tail step IH
      by (simp add: t1_def)
  qed
qed

lemma init_db_all_fail:
  assumes "0 < retries" and "0 \<le> retry_delay" and "\<forall>i. \<not> server i"
  shows "init_db server retries retry_delay =
           (Inl MongoDBConnectionError,
            \<lparr>attempts = nat retries,
             sleeps = map (\<lambda>i. retry_delay ^ i) [0..<nat retries - 1]\<rparr>)"
proof -
  have "int (0 + nat retries) = retries" using assms(1) by simp
  from connect_loop_all_fail[OF assms(2) assms(3) this, of "\<lparr>attempts = 0, sleeps = []\<rparr>"]
  show ?thesis using assms(1) by (simp add: init_db_def)
qed

lemma init_db_first_attempt:
  assumes "0 < retries" and "server 0"
  shows "init_db server retries retry_delay = (Inr (), \<lparr>attempts = 1, sleeps = []\<rparr>)"
proof -
  have "[0..<nat retries] = 0 # [1..<nat retries]"
    using assms(1) by (simp add: upt_conv_Cons)
  then show ?thesis using assms(2) by (simp add: init_db_def Let_def)
qed

text \<open>
  C2. The claim: whenever every connection attempt fails, \<^verbatim>\<open>init_db\<close> raises
  \<^verbatim>\<open>MongoDBConnectionError\<close> and has made exactly \<open>retries\<close> attempts. With
  \<open>retries = 0\<close> the loop body never runs: no attempt is made (so none
  succeeds), \<^verbatim>\<open>client\<close> is never assigned, and the call ends in
  \<^verbatim>\<open>UnboundLocalError\<close> instead, whatever the server would have answered.
\<close>

theorem init_db_zero_retries_unbound:
  "init_db server 0 retry_delay = (Inl UnboundLocalError, \<lparr>attempts = 0, sleeps = []\<rparr>)"
  by (simp add: init_db_def)

section \<open>Construction of a document\<close>

lemma distinct_dict_update:
  "distinct (map fst d) \<Longrightarrow> distinct (map fst (dict_update d e))"
  unfolding dict_update_def
  by (induction e arbitrary: d) (auto simp: distinct_update)

lemma keys_dict_update:
  "fst ` set (dict_update d e) = fst ` set d \<union> fst ` set e"
  unfolding dict_update_def
proof (induction e arbitrary: d)
  case Nil show ?case by simp
next
  case (Cons p e)
  obtain k v where p: "p = (k, v)" by (cases p)
  show ?case using Cons.IH[of "AList.update k v d"] dom_update[of k v d]
    by (auto simp: p)
qed

lemma map_of_values_distinct:
  assumes "distinct (map fst d)"
  shows "map_of (rev (map (\<lambda>(k, v). (k, f v)) d)) k = map_option f (map_of d k)"
proof -
  have "distinct (map fst (map (\<lambda>(k, v). (k, f v)) d))"
    using assms by (simp only: map_fst_map_values)
  then show ?thesis
    by (simp add: map_of_rev_distinct map_of_map_values)
qed

lemma update_in_place:
  "k \<notin> fst ` set ys \<Longrightarrow> AList.update k w (ys @ (k, v) # xs) = ys @ (k, w) # xs"
  by (induction ys) auto

lemma embed_loop_new_dict:
  "fold (\<lambda>(k, v) fr. case v of VDoc fs \<Rightarrow> d_setitem k (VDict fs) fr | _ \<Rightarrow> fr) xs
     (New_dict y, a)
   = (New_dict (fold embed_item xs y), a)"
proof (induction xs arbitrary: y)
  case Nil
  show ?case by simp
next
  case (Cons p xs)
  obtain k v where p: "p = (k, v)" by (cases p)
  show ?case
    unfolding p by (cases v) (simp_all add: d_setitem_def Cons.IH)
qed

lemma embed_loop_same:
  "fold (\<lambda>(k, v) fr. case v of VDoc fs \<Rightarrow> d_setitem k (VDict fs) fr | _ \<Rightarrow> fr) xs
     (Same_as_argument, a)
   = (Same_as_argument, fold embed_item xs a)"
proof (induction xs arbitrary: a)
  case Nil
  show ?case by simp
next
  case (Cons p xs)
  obtain k v where p: "p = (k, v)" by (cases p)
  show ?case
    unfolding p by (cases v) (simp_all add: d_setitem_def Cons.IH)
qed

lemma embed_items_distinct:
  assumes "distinct (map fst (ys @ xs))"
  shows "fold embed_item xs (ys @ xs) = ys @ map (\<lambda>(k, v). (k, embedded_to_dict v)) xs"
  using assms
proof (induction xs arbitrary: ys)
  case Nil
  show ?case by simp
next
  case (Cons p xs)
  obtain k v where p: "p = (k, v)" by (cases p)
  have nk: "k \<notin> fst ` set ys" using Cons.prems p by auto
  have step: "embed_item (k, v) (ys @ (k, v) # xs) = (ys @ [(k, embedded_to_dict v)]) @ xs"
    using update_in_place[OF nk, of _ v xs]
    by (cases v) (simp_all add: embedded_to_dict_def)
  have d: "distinct (map fst ((ys @ [(k, embedded_to_dict v)]) @ xs))"
    using Cons.prems p by auto
  have "fold embed_item (p # xs) (ys @ p # xs)
        = fold embed_item xs ((ys @ [(k, embedded_to_dict v)]) @ xs)"
    unfolding p using step by simp
  also have "\<dots> = (ys @ [(k, embedded_to_dict v)]) @ map (\<lambda>(k, v). (k, embedded_to_dict v)) xs"
    by (rule Cons.IH[OF d])
  finally show ?case by (simp add: p)
qed


lemma embed_loop_copy:
  "embed_loop (copy d, a) = (New_dict (fold embed_item d d), a)"
  by (simp add: embed_loop_def copy_def d_items_def embed_loop_new_dict)

lemma embed_loop_copy_distinct:
  assumes "distinct (map fst d)"
  shows "embed_loop (copy d, a) = (New_dict (map (\<lambda>(k, v). (k, embedded_to_dict v)) d), a)"
  using embed_items_distinct[of "[]" d] assms by (simp add: embed_loop_copy)

lemma Document_init_dict:
  assumes "distinct (map fst d)"
  shows "Document_init [] [VDict d] []
         = (dict_update [(''_id'', VNone)] (map (\<lambda>(k, v). (k, embedded_to_dict v)) d), [VDict d])"
  by (simp add: Document_init_def has_key_def Let_def embed_loop_copy_distinct[OF assms] d_items_def)

lemma Document_init_kwargs:
  assumes "distinct (map fst d)"
  shows "Document_init [] [] d
         = (dict_update (if has_key ''_id'' d then [] else [(''_id'', VNone)])
              (map (\<lambda>(k, v). (k, embedded_to_dict v)) d), [])"
  by (simp add: Document_init_def Let_def embed_loop_copy_distinct[OF assms] d_items_def)

lemma Document_new_dict:
  assumes "distinct (map fst d)"
  shows "Document_new [VDict d] []
         = dict_update [(''_id'', VNone)] (map (\<lambda>(k, v). (k, embedded_to_dict v)) d)"
  by (simp add: Document_new_def Document_init_dict[OF assms])

lemma Document_new_kwargs:
  assumes "distinct (map fst d)"
  shows "Document_new [] d = dict_update (if has_key ''_id'' d then [] else [(''_id'', VNone)])
       (map (\<lambda>(k, v). (k, embedded_to_dict v)) d)"
  by (simp add: Document_new_def Document_init_kwargs[OF assms])

lemma Document_init_args: "snd (Document_init self args kwargs) = args"
proof -
  have "\<And>a x. snd (embed_loop (copy a, x)) = x" by (simp add: embed_loop_copy)
  then show ?thesis
    by (simp add: Document_init_def Let_def split: list.splits pyval.splits)
qed

lemma map_of_Document_new:
  assumes "well_formed_dict d" and "r = Document_new [VDict d] [] \<or> r = Document_new [] d"
  shows "map_of r k = (if k = ''_id'' \<and> map_of d ''_id'' = None then Some VNone
                       else map_option embedded_to_dict (map_of d k))"
proof -
  have dist: "distinct (map fst d)" using assms(1) by (simp add: well_formed_dict_def)
  note vals = map_of_values_distinct[OF dist, of embedded_to_dict]
  from assms(2) show ?thesis
  proof
    assume "r = Document_new [VDict d] []"
    then show ?thesis
      by (auto simp: Document_new_dict[OF dist] map_of_dict_update map_add_def vals
            split: option.splits)
  next
    assume "r = Document_new [] d"
    then show ?thesis
      by (auto simp: Document_new_kwargs[OF dist] map_of_dict_update map_add_def vals has_key_def
               split: option.splits)
  qed
qed

lemma keys_Document_new:
  assumes "distinct (map fst d)" and "r = Document_new [VDict d] [] \<or> r = Document_new [] d"
  shows "fst ` set r = insert ''_id'' (fst ` set d)"
proof -
  define e where "e = map (\<lambda>(k, v). (k, embedded_to_dict v)) d"
  have "set (map fst e) = set (map fst d)"
    unfolding e_def by (simp only: map_fst_map_values)
  then have k: "fst ` set e = fst ` set d" by simp
  have hk: "has_key ''_id'' d \<longleftrightarrow> ''_id'' \<in> fst ` set d"
    by (simp add: has_key_def map_of_eq_None_iff)
  have r: "r = dict_update [(''_id'', VNone)] e
           \<or> (''_id'' \<in> fst ` set d \<and> r = dict_update [] e)"
    using assms(2) hk
    unfolding Document_new_dict[OF assms(1)] Document_new_kwargs[OF assms(1)] e_def[symmetric]
    by (cases "has_key ''_id'' d") simp_all
  then show ?thesis
  proof
    assume "r = dict_update [(''_id'', VNone)] e"
    then show ?thesis by (simp add: keys_dict_update k)
  next
    assume "''_id'' \<in> fst ` set d \<and> r = dict_update [] e"
    then show ?thesis by (simp add: keys_dict_update k insert_absorb)
  qed
qed

lemma wf_Document_new:
  assumes "distinct (map fst d)" and "r = Document_new [VDict d] [] \<or> r = Document_new [] d"
  shows "well_formed_dict r"
  using assms
  by (auto simp: Document_new_dict[OF assms(1)] Document_new_kwargs[OF assms(1)]
        well_formed_dict_def
        intro!: distinct_dict_update)

text \<open>
  C7. A document built from a single dict argument, or from keyword fields:
  the input is shallow-copied, that is, the constructor works on a new dict that
  holds the input's own values, and the caller's arguments, with them the dict
  passed, are after the call what they were before; the instance holds exactly
  the keys of the input and \<open>_id\<close>; each value is the input's value, with a value
  that is a \<^verbatim>\<open>Document\<close> replaced by its field mapping; \<open>_id\<close> is \<^verbatim>\<open>None\<close> when the
  input has none. The replacement is one level deep: the field mapping of an
  embedded document is taken as it is, and a value that is not a document (a
  plain dict holding documents, say) is kept as it is.
\<close>

theorem Document_construction:
  assumes "well_formed_dict d"
    and "(args, kwargs) = ([VDict d], []) \<or> (args, kwargs) = ([], d)"
    and "Document_init [] args kwargs = (r, args')"
  shows "args' = args
       \<and> copy d = New_dict d
       \<and> has_key ''_id'' r
       \<and> (\<forall>k. map_of r k = (if k = ''_id'' \<and> map_of d ''_id'' = None then Some VNone
                             else map_option embedded_to_dict (map_of d k)))
       \<and> fst ` set r = insert ''_id'' (fst ` set d)
       \<and> well_formed_dict r
       \<and> (\<forall>fs. embedded_to_dict (VDoc fs) = VDict fs)
       \<and> (\<forall>v. (\<forall>fs. v \<noteq> VDoc fs) \<longrightarrow> embedded_to_dict v = v)"
proof -
  have dist: "distinct (map fst d)" using assms(1) by (simp add: well_formed_dict_def)
  have a: "args' = args" using Document_init_args[of "[]" args kwargs] assms(3) by simp
  have r: "r = Document_new [VDict d] [] \<or> r = Document_new [] d"
    using assms(2,3) by (auto simp: Document_new_def)
  note m = map_of_Document_new[OF assms(1) r]
  have "has_key ''_id'' r"
    unfolding has_key_def using m[of "''_id''"] by (auto split: if_splits)
  moreover have "\<And>v. (\<forall>fs. v \<noteq> VDoc fs) \<Longrightarrow> embedded_to_dict v = v"
    by (simp add: embedded_to_dict_def split: pyval.splits)
  moreover have "copy d = New_dict d" by (simp add: copy_def)
  ultimately show ?thesis
    using a m keys_Document_new[OF dist r] wf_Document_new[OF dist r]
    by (simp add: embedded_to_dict_def)
qed

theorem Document_construction_witness:
  "well_formed_dict
     [(''name'', VStr ''A''), (''addr'', VDoc [(''_id'', VNone), (''geo'', VDoc [(''_id'', VNone)])])]
   \<and> Document_init []
        [VDict [(''name'', VStr ''A''),
                (''addr'', VDoc [(''_id'', VNone), (''geo'', VDoc [(''_id'', VNone)])])]] []
      = ([(''_id'', VNone), (''name'', VStr ''A''),
          (''addr'', VDict [(''_id'', VNone), (''geo'', VDoc [(''_id'', VNone)])])],
         [VDict [(''name'', VStr ''A''),
                 (''addr'', VDoc [(''_id'', VNone), (''geo'', VDoc [(''_id'', VNone)])])]])
   \<and> map_of [(''_id'', VNone), (''name'', VStr ''A''),
          (''addr'', VDict [(''_id'', VNone), (''geo'', VDoc [(''_id'', VNone)])])] ''addr''
      = Some (VDict [(''_id'', VNone), (''geo'', VDoc [(''_id'', VNone)])])"
proof -
  define d where "d = [(''name'', VStr ''A''),
      (''addr'', VDoc [(''_id'', VNone), (''geo'', VDoc [(''_id'', VNone)])])]"
  define r where "r = [(''_id'', VNone), (''name'', VStr ''A''),
      (''addr'', VDict [(''_id'', VNone), (''geo'', VDoc [(''_id'', VNone)])])]"
  have wf: "well_formed_dict d" by (simp add: well_formed_dict_def d_def)
  have i: "Document_init [] [VDict d] [] = (r, [VDict d])"
    by (simp add: Document_init_def has_key_def copy_def dict_update_def embed_loop_def
          d_items_def d_setitem_def d_def r_def)
  have ar: "([VDict d], []) = ([VDict d], []) \<or> ([VDict d], []) = ([], d)" by simp
  from Document_construction[OF wf ar i]
  have "map_of r ''addr'' = map_option embedded_to_dict (map_of d ''addr'')" by simp
  then have m: "map_of r ''addr'' = Some (VDict [(''_id'', VNone), (''geo'', VDoc [(''_id'', VNone)])])"
    by (simp add: d_def embedded_to_dict_def)
  from wf i m have "well_formed_dict d \<and> Document_init [] [VDict d] [] = (r, [VDict d])
      \<and> map_of r ''addr'' = Some (VDict [(''_id'', VNone), (''geo'', VDoc [(''_id'', VNone)])])"
    by (intro conjI)
  then show ?thesis unfolding d_def r_def .
qed

text \<open>
  Had \<open>d\<close> been the caller's dict itself, the loop would have rewritten it.
\<close>

lemma embed_loop_without_copy:
  "embed_loop (Same_as_argument, [(''addr'', VDoc [(''_id'', VNone)])])
   = (Same_as_argument, [(''addr'', VDict [(''_id'', VNone)])])"
  by (simp add: embed_loop_def d_items_def d_setitem_def)

section \<open>Lookup by identity\<close>








text \<open>
  C10. On a class with a bound collection, \<^verbatim>\<open>get_by_id\<close> of a well-formed
  identity that no stored document has does not return \<^verbatim>\<open>None\<close>: the driver's
  \<^verbatim>\<open>None\<close> goes to the constructor, and the result is an instance whose only
  field is \<open>_id\<close>, holding \<^verbatim>\<open>None\<close>, which is what the constructor gives with no
  argument at all.
\<close>

theorem get_by_id_no_match:
  assumes "collection cls = Some c" and "ObjectId s = Some oid"
    and "\<not> list_ex (id_matches (VOid oid)) (docs_of db c)"
  shows "get_by_id cls s db = (Inr (Some [(''_id'', VNone)]), served (Find_one c (VOid oid)) db)
       \<and> Document_new [] [] = [(''_id'', VNone)]"
proof -
  have "List.find (id_matches (VOid oid)) (docs_of db c) = None"
    using assms(3) by (simp add: find_None_iff list_ex_iff)
  then show ?thesis
    using assms(1,2)
    by (simp add: get_by_id_def find_one_def Document_new_def Document_init_def has_key_def
          dict_update_def copy_def embed_loop_def d_items_def d_setitem_def)
qed

theorem get_by_id_no_match_witness:
  "collection (create_collection_class ''User'' (Some ''users'')) = Some ''users''
   \<and> ObjectId ''000000000000000000000002'' = Some [0, 0, 0, 0, 0, 0, 0, 0, 0, 0, 0, 2]
   \<and> fst (get_by_id (create_collection_class ''User'' (Some ''users'')) ''000000000000000000000002''
        \<lparr>collections = [(''users'', [[(''_id'', VOid [0, 0, 0, 0, 0, 0, 0, 0, 0, 0, 0, 1]),
                                       (''name'', VStr ''A'')]])],
         next_oid = 2, calls = []\<rparr>)
      = Inr (Some [(''_id'', VNone)])"
proof -
  define cls where "cls = create_collection_class ''User'' (Some ''users'')"
  define db where "db = \<lparr>collections = [(''users'', [[(''_id'', VOid [0, 0, 0, 0, 0, 0, 0, 0, 0, 0, 0, 1]),
                                       (''name'', VStr ''A'')]])],
         next_oid = 2, calls = []\<rparr>"
  have c: "collection cls = Some ''users''"
    by (simp add: cls_def create_collection_class_def)
  have s: "ObjectId ''000000000000000000000002'' = Some [0, 0, 0, 0, 0, 0, 0, 0, 0, 0, 0, 2]"
    by (simp add: ObjectId_def hex_digit_def is_space_def)
  have n: "\<not> list_ex (id_matches (VOid [0, 0, 0, 0, 0, 0, 0, 0, 0, 0, 0, 2])) (docs_of db ''users'')"
    by (simp add: docs_of_def id_matches_def db_def)
  from get_by_id_no_match[OF c s n]
  have "fst (get_by_id cls ''000000000000000000000002'' db) = Inr (Some [(''_id'', VNone)])"
    by simp
  with c s have "collection cls = Some ''users''
      \<and> ObjectId ''000000000000000000000002'' = Some [0, 0, 0, 0, 0, 0, 0, 0, 0, 0, 0, 2]
      \<and> fst (get_by_id cls ''000000000000000000000002'' db) = Inr (Some [(''_id'', VNone)])"
    by (intro conjI)
  then show ?thesis unfolding cls_def db_def .
qed

section \<open>The auto-increment counter\<close>

lemma find_replace_first:
  assumes "\<exists>x\<in>set xs. P x" and "P y"
  shows "List.find P (replace_first P (\<lambda>_. y) xs) = Some y"
  using assms by (induction xs) auto

lemma find_append_new:
  assumes "List.find P xs = None" and "P y"
  shows "List.find P (xs @ [y]) = Some y"
  using assms by (induction xs) (auto split: if_splits)

lemma docs_of_put_docs: "docs_of (served call (put_docs c ds db)) c = ds"
  by (simp add: docs_of_def served_def put_docs_def update_conv')

lemma names_put_docs:
  "set (list_collection_names (served call (put_docs c ds db))) = insert c (set (list_collection_names db))"
  using dom_update[of c ds "collections db"]
  by (simp add: list_collection_names_def served_def put_docs_def)

lemma calls_served: "calls (served call (put_docs c ds db)) = calls db @ [call]"
  by (simp add: served_def put_docs_def)

lemma id_matches_update:
  "field \<noteq> ''_id'' \<Longrightarrow> id_matches v (AList.update field x doc) = id_matches v doc"
  by (simp add: id_matches_def update_conv')

lemma upsert_new:
  assumes "List.find (id_matches v) (docs_of db c) = None"
  shows "find_one_and_update_inc c v field n db =
           Inr ([(''_id'', v), (field, VInt n)],
                served (Find_one_and_update_inc c v field n)
                  (put_docs c (docs_of db c @ [[(''_id'', v), (field, VInt n)]]) db))"
  using assms by (simp add: find_one_and_update_inc_def Let_def)

lemma upsert_old:
  assumes "List.find (id_matches v) (docs_of db c) = Some old"
    and "inc_field field n old = Inr doc"
  shows "find_one_and_update_inc c v field n db =
           Inr (doc, served (Find_one_and_update_inc c v field n)
                  (put_docs c (replace_first (id_matches v) (\<lambda>_. doc) (docs_of db c)) db))"
  using assms by (simp add: find_one_and_update_inc_def)


lemma get_auto_id_ok:
  assumes "''counters'' \<in> set (list_collection_names db)"
    and "find_one_and_update_inc ''counters'' (VStr name) ''sequence_value'' n db = Inr (doc, db')"
    and "map_of doc ''sequence_value'' = Some v"
  shows "get_auto_id name n db = Inr (v, db')"
  using assms by (simp add: get_auto_id_def)

lemma inc_ok:
  assumes "counter_well_formed db name" and cv: "counter_value db name = map_of old ''sequence_value''"
  shows "inc_field ''sequence_value'' n old = Inr (AList.update ''sequence_value'' (VInt (counter_before db name + n)) old)"
proof (cases "map_of old ''sequence_value''")
  case None
  then show ?thesis using cv by (simp add: inc_field_def counter_before_def)
next
  case (Some v)
  then obtain m where "v = VInt m"
    using assms by (cases v) (simp_all add: counter_well_formed_def)
  then show ?thesis using Some cv by (simp add: inc_field_def counter_before_def)
qed

lemma step_new:
  assumes "''counters'' \<in> set (list_collection_names db)"
    and None: "List.find (id_matches (VStr name)) (docs_of db ''counters'') = None"
  shows "\<exists>db'. get_auto_id name n db = Inr (VInt (counter_before db name + n), db')
          \<and> counter_value db' name = Some (VInt (counter_before db name + n))
          \<and> ''counters'' \<in> set (list_collection_names db')
          \<and> calls db' = calls db @ [Find_one_and_update_inc ''counters'' (VStr name) ''sequence_value'' n]"
proof -
  define doc where "doc = [(''_id'', VStr name), (''sequence_value'', VInt n)]"
  define db' where "db' = served (Find_one_and_update_inc ''counters'' (VStr name) ''sequence_value'' n)
                (put_docs ''counters'' (docs_of db ''counters'' @ [doc]) db)"
  have cb: "counter_before db name = 0"
    using None by (simp add: counter_before_def counter_value_def stored_document_def)
  have m: "id_matches (VStr name) doc" by (simp add: id_matches_def doc_def)
  have sv: "map_of doc ''sequence_value'' = Some (VInt n)" by (simp add: doc_def)
  have "find_one_and_update_inc ''counters'' (VStr name) ''sequence_value'' n db = Inr (doc, db')"
    unfolding doc_def db'_def by (rule upsert_new[OF None])
  from get_auto_id_ok[OF assms(1) this sv]
  have g: "get_auto_id name n db = Inr (VInt n, db')" .
  have "stored_document db' ''counters'' (VStr name) = Some doc"
    unfolding stored_document_def db'_def docs_of_put_docs by (rule find_append_new[OF None m])
  then have cv: "counter_value db' name = Some (VInt n)"
    by (simp add: counter_value_def sv)
  have nm: "''counters'' \<in> set (list_collection_names db')"
    unfolding db'_def names_put_docs by simp
  have cl: "calls db' = calls db @ [Find_one_and_update_inc ''counters'' (VStr name) ''sequence_value'' n]"
    unfolding db'_def by (rule calls_served)
  show ?thesis
    unfolding cb using g cv nm cl by auto
qed

lemma step_old:
  assumes "''counters'' \<in> set (list_collection_names db)"
    and wf: "counter_well_formed db name"
    and Some: "List.find (id_matches (VStr name)) (docs_of db ''counters'') = Some old"
  shows "\<exists>db'. get_auto_id name n db = Inr (VInt (counter_before db name + n), db')
          \<and> counter_value db' name = Some (VInt (counter_before db name + n))
          \<and> ''counters'' \<in> set (list_collection_names db')
          \<and> calls db' = calls db @ [Find_one_and_update_inc ''counters'' (VStr name) ''sequence_value'' n]"
proof -
  define a where "a = counter_before db name + n"
  define doc where "doc = AList.update ''sequence_value'' (VInt a) old"
  define db' where "db' = served (Find_one_and_update_inc ''counters'' (VStr name) ''sequence_value'' n)
                (put_docs ''counters''
                   (replace_first (id_matches (VStr name)) (\<lambda>_. doc) (docs_of db ''counters'')) db)"
  have ex: "\<exists>x\<in>set (docs_of db ''counters''). id_matches (VStr name) x"
    using Some by (auto simp: find_Some_iff)
  have old_m: "id_matches (VStr name) old" using Some by (auto simp: find_Some_iff)
  have cv0: "counter_value db name = map_of old ''sequence_value''"
    using Some by (simp add: counter_value_def stored_document_def)
  have inc: "inc_field ''sequence_value'' n old = Inr doc"
    unfolding doc_def a_def by (rule inc_ok[OF wf cv0])
  have m: "id_matches (VStr name) doc"
    unfolding doc_def using old_m by (simp add: id_matches_update)
  have sv: "map_of doc ''sequence_value'' = Some (VInt a)"
    by (simp add: doc_def update_conv')
  have "find_one_and_update_inc ''counters'' (VStr name) ''sequence_value'' n db = Inr (doc, db')"
    unfolding db'_def by (rule upsert_old[OF Some inc])
  from get_auto_id_ok[OF assms(1) this sv]
  have g: "get_auto_id name n db = Inr (VInt a, db')" .
  have "stored_document db' ''counters'' (VStr name) = Some doc"
    unfolding stored_document_def db'_def docs_of_put_docs by (rule find_replace_first[OF ex m])
  then have cv: "counter_value db' name = Some (VInt a)"
    by (simp add: counter_value_def sv)
  have nm: "''counters'' \<in> set (list_collection_names db')"
    unfolding db'_def names_put_docs by simp
  have cl: "calls db' = calls db @ [Find_one_and_update_inc ''counters'' (VStr name) ''sequence_value'' n]"
    unfolding db'_def by (rule calls_served)
  show ?thesis
    unfolding a_def[symmetric] using g cv nm cl by auto
qed

lemma get_auto_id_step:
  assumes "''counters'' \<in> set (list_collection_names db)"
    and "counter_well_formed db name"
  shows "\<exists>db'. get_auto_id name n db = Inr (VInt (counter_before db name + n), db')
          \<and> counter_value db' name = Some (VInt (counter_before db name + n))
          \<and> ''counters'' \<in> set (list_collection_names db')
          \<and> calls db' = calls db @ [Find_one_and_update_inc ''counters'' (VStr name) ''sequence_value'' n]"
proof (cases "List.find (id_matches (VStr name)) (docs_of db ''counters'')")
  case None
  from step_new[OF assms(1) None] show ?thesis .
next
  case (Some old)
  from step_old[OF assms Some] show ?thesis .
qed

text \<open>
  C6. \<^verbatim>\<open>_get_auto_id\<close> raises \<^verbatim>\<open>MongoDBCollectionError\<close> when the database lists no
  collection \<open>counters\<close>. When it does, and the counter record of the sequence
  has the shape of section 6 (or does not exist yet), two successive calls with
  increment 2 return integers \<open>a\<close> and \<open>a + 2\<close>; after each call the record's
  \<open>sequence_value\<close> is the value returned, and each call is one
  \<^verbatim>\<open>find_one_and_update\<close> with upsert on the record of that name.
\<close>

theorem get_auto_id_sequence:
  "(''counters'' \<notin> set (list_collection_names db) \<longrightarrow>
      get_auto_id name n db = Inl MongoDBCollectionError)
   \<and> (''counters'' \<in> set (list_collection_names db) \<and> counter_well_formed db name \<longrightarrow>
      (\<exists>a db1 db2.
         get_auto_id name 2 db = Inr (VInt a, db1)
       \<and> counter_value db1 name = Some (VInt a)
       \<and> calls db1 = calls db @ [Find_one_and_update_inc ''counters'' (VStr name) ''sequence_value'' 2]
       \<and> get_auto_id name 2 db1 = Inr (VInt (a + 2), db2)
       \<and> counter_value db2 name = Some (VInt (a + 2))
       \<and> calls db2 = calls db1 @ [Find_one_and_update_inc ''counters'' (VStr name) ''sequence_value'' 2]))"
proof (intro conjI impI)
  assume "''counters'' \<notin> set (list_collection_names db)"
  then show "get_auto_id name n db = Inl MongoDBCollectionError"
    by (simp add: get_auto_id_def)
next
  assume a: "''counters'' \<in> set (list_collection_names db) \<and> counter_well_formed db name"
  define x where "x = counter_before db name + 2"
  from get_auto_id_step[of db name 2] a obtain db1 where
    s1: "get_auto_id name 2 db = Inr (VInt x, db1)"
    and v1: "counter_value db1 name = Some (VInt x)"
    and c1: "''counters'' \<in> set (list_collection_names db1)"
    and l1: "calls db1 = calls db @ [Find_one_and_update_inc ''counters'' (VStr name) ''sequence_value'' 2]"
    unfolding x_def by blast
  have wf1: "counter_well_formed db1 name" using v1 by (simp add: counter_well_formed_def)
  have b1: "counter_before db1 name = x"
    using v1 by (simp add: counter_before_def)
  from get_auto_id_step[OF c1 wf1, of 2] obtain db2 where
    s2: "get_auto_id name 2 db1 = Inr (VInt (x + 2), db2)"
    and v2: "counter_value db2 name = Some (VInt (x + 2))"
    and l2: "calls db2 = calls db1 @ [Find_one_and_update_inc ''counters'' (VStr name) ''sequence_value'' 2]"
    unfolding b1 by blast
  from s1 v1 l1 s2 v2 l2
  show "\<exists>a db1 db2.
         get_auto_id name 2 db = Inr (VInt a, db1)
       \<and> counter_value db1 name = Some (VInt a)
       \<and> calls db1 = calls db @ [Find_one_and_update_inc ''counters'' (VStr name) ''sequence_value'' 2]
       \<and> get_auto_id name 2 db1 = Inr (VInt (a + 2), db2)
       \<and> counter_value db2 name = Some (VInt (a + 2))
       \<and> calls db2 = calls db1 @ [Find_one_and_update_inc ''counters'' (VStr name) ''sequence_value'' 2]"
    by blast
qed

theorem get_auto_id_sequence_witness:
  "''counters'' \<in> set (list_collection_names
      \<lparr>collections = [(''counters'', [[(''_id'', VStr ''order_seq''), (''sequence_value'', VInt 10)]])],
       next_oid = 0, calls = []\<rparr>)
   \<and> counter_well_formed
      \<lparr>collections = [(''counters'', [[(''_id'', VStr ''order_seq''), (''sequence_value'', VInt 10)]])],
       next_oid = 0, calls = []\<rparr> ''order_seq''
   \<and> (\<exists>a db1 db2.
         get_auto_id ''order_seq'' 2
           \<lparr>collections = [(''counters'', [[(''_id'', VStr ''order_seq''), (''sequence_value'', VInt 10)]])],
            next_oid = 0, calls = []\<rparr> = Inr (VInt a, db1)
       \<and> counter_value db1 ''order_seq'' = Some (VInt a)
       \<and> get_auto_id ''order_seq'' 2 db1 = Inr (VInt (a + 2), db2)
       \<and> counter_value db2 ''order_seq'' = Some (VInt (a + 2)))"
proof -
  define db where "db = \<lparr>collections = [(''counters'', [[(''_id'', VStr ''order_seq''), (''sequence_value'', VInt 10)]])],
       next_oid = 0, calls = []\<rparr>"
  have c: "''counters'' \<in> set (list_collection_names db)"
    by (simp add: db_def list_collection_names_def)
  have w: "counter_well_formed db ''order_seq''"
    by (simp add: db_def counter_well_formed_def counter_value_def stored_document_def
          docs_of_def id_matches_def)
  from get_auto_id_sequence[of db "''order_seq''" 2] c w
  have "\<exists>a db1 db2.
         get_auto_id ''order_seq'' 2 db = Inr (VInt a, db1)
       \<and> counter_value db1 ''order_seq'' = Some (VInt a)
       \<and> get_auto_id ''order_seq'' 2 db1 = Inr (VInt (a + 2), db2)
       \<and> counter_value db2 ''order_seq'' = Some (VInt (a + 2))"
    by blast
  with c w show ?thesis unfolding db_def by blast
qed

section \<open>The model decorator and \<open>register_model\<close>\<close>

lemma isinstance_zero_value: "isinstance (zero_value ty) ty"
  by (cases ty) (simp_all add: isinstance_def zero_value_def)

lemma bind_fields_error: "bind_fields anns args kwargs self = Inl e \<Longrightarrow> e = TypeError"
  by (induction anns args kwargs self rule: bind_fields.induct)
     (auto split: option.splits list.splits if_splits)










text \<open>
  C5. The two paths differ on the guard: a name that \<^verbatim>\<open>hasattr\<close> does not find
  (neither in the instance's \<^verbatim>\<open>__dict__\<close> nor on the class) is assigned without
  complaint on an instance of a class made by \<^verbatim>\<open>register_model\<close>, and the same
  assignment on an instance of the class the model decorator makes from the same
  plain class raises \<^verbatim>\<open>AttributeError\<close>.
\<close>

theorem assignment_guard_differs:
  assumes "\<not> hasattr (model cn c) self name"
  shows "setattr (register_model c cn') self name v = Inr (AList.update name v self)
       \<and> setattr (model cn c) self name v = Inl AttributeError"
  using assms
  by (simp add: setattr_def NewClass_setattr_def object_setattr_def model_def register_model_def)

theorem assignment_guard_differs_witness:
  "\<not> hasattr (model ''users'' 
      \<lparr>plain_name = ''User'', plain_annotations = [(''name'', TStr), (''age'', TInt)], plain_attrs = []\<rparr>) [(''_id'', VNone), (''name'', VStr ''Bob'')] ''nick''
   \<and> setattr (register_model 
      \<lparr>plain_name = ''User'', plain_annotations = [(''name'', TStr), (''age'', TInt)], plain_attrs = []\<rparr> None) [(''_id'', VNone), (''name'', VStr ''Bob'')]
        ''nick'' (VStr ''b'')
        = Inr [(''_id'', VNone), (''name'', VStr ''Bob''), (''nick'', VStr ''b'')]
   \<and> setattr (model ''users'' 
      \<lparr>plain_name = ''User'', plain_annotations = [(''name'', TStr), (''age'', TInt)], plain_attrs = []\<rparr>) [(''_id'', VNone), (''name'', VStr ''Bob'')]
        ''nick'' (VStr ''b'') = Inl AttributeError"
proof -
  have h: "\<not> hasattr (model ''users'' 
      \<lparr>plain_name = ''User'', plain_annotations = [(''name'', TStr), (''age'', TInt)], plain_attrs = []\<rparr>) [(''_id'', VNone), (''name'', VStr ''Bob'')] ''nick''"
    by (simp add: hasattr_def has_key_def model_def Document_attrs_def dict_attrs_def annotations_attr_def)
  from assignment_guard_differs[OF h, where cn' = None and v = "VStr ''b''"] h
  show ?thesis by simp
qed

section \<open>Saving a document\<close>

lemmas driver_defs = insert_one_def replace_one_def update_one_unset_def find_one_def
  find_one_and_update_inc_def inc_field_def served_def put_docs_def docs_of_def id_matches_def
  encodable_doc_def list_collection_names_def Let_def

lemma save_plain: "save cls None None self db = save_document cls self db"
  by (simp add: save_def truthy_def)

lemma self_collection_bound:
  assumes "collection cls = Some c" and "\<not> has_key ''collection'' self"
  shows "self_collection cls self = Is_Collection c"
  using assms by (simp add: self_collection_def has_key_def)

lemma self_collection_unbound:
  assumes "collection cls = None" and "\<not> has_key ''collection'' self"
  shows "self_collection cls self = Is_None"
  using assms by (simp add: self_collection_def has_key_def)

lemma insert_one_fresh:
  assumes "map_of doc ''_id'' = None" and "insert_one c doc db = (Inr i, doc1, db')"
  shows "i = VOid (fresh_oid (next_oid db))
       \<and> doc1 = AList.update ''_id'' i doc
       \<and> \<not> list_ex (id_matches i) (docs_of db c)
       \<and> db' = served (Insert_one c doc)
                  (put_docs c (docs_of db c @ [doc1]) (db\<lparr>next_oid := Suc (next_oid db)\<rparr>))"
  using assms by (auto simp: insert_one_def Let_def split: if_splits)

lemma save_document_first:
  assumes "self_collection cls self = Is_Collection c" and "map_of self ''_id'' = Some VNone"
    and "save_document cls self db = (Inr r, self', db')"
  shows "r = Returned_self
       \<and> self' = AList.update ''_id'' (VOid (fresh_oid (next_oid db))) (AList.delete ''_id'' self)
       \<and> map_of self' ''_id'' = Some (VOid (fresh_oid (next_oid db)))
       \<and> calls db' = calls db @ [Insert_one c (AList.delete ''_id'' self)]
       \<and> stored_document db' c (VOid (fresh_oid (next_oid db))) = Some self'"
proof -
  define doc where "doc = AList.delete ''_id'' self"
  define oid where "oid = VOid (fresh_oid (next_oid db))"
  have n: "map_of doc ''_id'' = None" by (simp add: doc_def delete_conv')
  from assms obtain i doc1 where ins: "insert_one c doc db = (Inr i, doc1, db')"
    and s: "self' = AList.update ''_id'' i doc1" and r: "r = Returned_self"
    by (auto simp: save_document_def doc_def[symmetric] split: sum.splits error.splits prod.splits)
  from insert_one_fresh[OF n ins] have i: "i = oid"
    and d1: "doc1 = AList.update ''_id'' oid doc"
    and nx: "\<not> list_ex (id_matches oid) (docs_of db c)"
    and db': "db' = served (Insert_one c doc)
                (put_docs c (docs_of db c @ [doc1]) (db\<lparr>next_oid := Suc (next_oid db)\<rparr>))"
    unfolding oid_def by blast+
  have s': "self' = AList.update ''_id'' oid doc" unfolding s i d1 by simp
  have f0: "List.find (id_matches oid) (docs_of db c) = None"
    using nx by (simp add: find_None_iff list_ex_iff)
  have m: "id_matches oid (AList.update ''_id'' oid doc)"
    by (simp add: id_matches_def update_conv')
  have d: "docs_of db' c = docs_of db c @ [AList.update ''_id'' oid doc]"
    unfolding db' d1 by (simp add: docs_of_def served_def put_docs_def update_conv')
  have st: "stored_document db' c oid = Some self'"
    unfolding stored_document_def d s' by (rule find_append_new[OF f0 m])
  have cl: "calls db' = calls db @ [Insert_one c doc]"
    unfolding db' by (simp add: served_def put_docs_def)
  have mo: "map_of self' ''_id'' = Some oid" unfolding s' by (simp add: update_conv')
  from r s' mo cl st show ?thesis unfolding oid_def doc_def by (intro conjI)
qed

lemma save_document_again:
  assumes "self_collection cls self = Is_Collection c" and "map_of self ''_id'' = Some v"
    and "v \<noteq> VNone" and "save_document cls self db = (Inr r, self', db')"
  shows "self' = self \<and> (\<exists>n. r = Update_result n)
       \<and> calls db' = calls db @ [Replace_one c v self]"
proof -
  from assms obtain n where rp: "replace_one c v self db = Inr (n, db')"
    and s: "self' = self" and r: "r = Update_result n"
    by (cases v) (auto simp: save_document_def split: sum.splits error.splits)
  from rp have "calls db' = calls db @ [Replace_one c v self]"
    by (auto simp: replace_one_def served_def put_docs_def split: if_splits)
  with s r show ?thesis by blast
qed

text \<open>
  The life of an instance whose fields hide no class attribute, under saves
  whose auto field is neither \<open>_id\<close> nor \<open>collection\<close>: with a null \<open>_id\<close> a
  successful save inserts, sets \<open>_id\<close> to the identity the insert returned and
  leaves the instance stored under it; with any other \<open>_id\<close> a successful save
  keeps it and issues a replace keyed by it.
\<close>

lemma save_lifecycle:
  assumes "collection cls = Some c" and "\<not> has_key ''collection'' self"
    and "auto_field \<noteq> Some ''_id''" and "auto_field \<noteq> Some ''collection''"
    and "map_of self ''_id'' = Some v"
    and "save cls auto_field auto_key self db = (Inr r, self', db')"
  shows "if v = VNone
         then r = Returned_self \<and> (\<exists>oid. map_of self' ''_id'' = Some (VOid oid))
              \<and> (\<exists>doc. last (calls db') = Insert_one c doc)
              \<and> stored_document db' c (the (map_of self' ''_id'')) = Some self'
         else map_of self' ''_id'' = Some v \<and> (\<exists>n. r = Update_result n)
              \<and> last (calls db') = Replace_one c v self'"
proof -
  obtain s1 db1 where sd: "save_document cls s1 db1 = (Inr r, self', db')"
    and id1: "map_of s1 ''_id'' = Some v"
    and col: "self_collection cls s1 = Is_Collection c"
  proof (cases "truthy auto_field")
    case False
    with assms(6) have "save_document cls self db = (Inr r, self', db')"
      by (simp add: save_def)
    with assms(5) self_collection_bound[OF assms(1,2)] that show ?thesis by blast
  next
    case True
    then obtain f where f: "auto_field = Some f" "f \<noteq> []"
      by (auto simp: truthy_def split: option.splits)
    with assms(3,4) have ne: "f \<noteq> ''_id''" "f \<noteq> ''collection''" by simp_all
    from assms(6) True f obtain x dbx where
      "save_document cls (AList.update f x self) dbx = (Inr r, self', db')"
      by (auto simp: save_def split: if_splits sum.splits)
    moreover have "map_of (AList.update f x self) ''_id'' = Some v"
      using ne assms(5) by (simp add: update_conv')
    moreover have "\<not> has_key ''collection'' (AList.update f x self)"
      using ne assms(2) by (simp add: has_key_def update_conv')
    ultimately show ?thesis using that self_collection_bound[OF assms(1)] by blast
  qed
  show ?thesis
  proof (cases "v = VNone")
    case True
    from save_document_first[OF col id1[unfolded True] sd]
    have r: "r = Returned_self"
      and m: "map_of self' ''_id'' = Some (VOid (fresh_oid (next_oid db1)))"
      and cl: "calls db' = calls db1 @ [Insert_one c (AList.delete ''_id'' s1)]"
      and st: "stored_document db' c (VOid (fresh_oid (next_oid db1))) = Some self'"
      by blast+
    show ?thesis using True r m cl st by simp
  next
    case False
    from save_document_again[OF col id1 False sd]
    show ?thesis using False id1 by auto
  qed
qed

text \<open>
  C1. The claim: an instance built with no \<open>_id\<close> has a null \<open>_id\<close>, the first
  successful save inserts it and sets \<open>_id\<close> to the identity the insert
  generated, and later saves replace. For a save whose auto field is not \<open>_id\<close>
  this is \<open>save_lifecycle\<close> above. With \<^verbatim>\<open>auto_field='_id'\<close> line 162 stores the
  counter value into \<open>_id\<close> before line 169 tests \<^verbatim>\<open>self._id is None\<close>: the first
  save of a fresh instance takes the replace path, matches no record and inserts
  nothing. The call succeeds, \<open>_id\<close> is not null any more, and the collection is
  as empty as before.
\<close>

theorem save_auto_id_field_never_inserts:
  "save (create_collection_class ''User'' (Some ''users'')) (Some ''_id'') (Some ''seq'')
     (Document_new [] [(''name'', VStr ''A'')])
     \<lparr>collections = [(''counters'', []), (''users'', [])], next_oid = 0, calls = []\<rparr>
   = (Inr (Update_result 0),
      [(''_id'', VInt 2), (''name'', VStr ''A'')],
      \<lparr>collections = [(''counters'', [[(''_id'', VStr ''seq''), (''sequence_value'', VInt 2)]]),
                      (''users'', [])],
       next_oid = 0,
       calls = [Find_one_and_update_inc ''counters'' (VStr ''seq'') ''sequence_value'' 2,
                Replace_one ''users'' (VInt 2) [(''_id'', VInt 2), (''name'', VStr ''A'')]]\<rparr>)"
  by (simp add: save_def save_document_def self_get_auto_id_def self_collection_def
        get_auto_id_def truthy_def create_collection_class_def
        Document_new_def Document_init_def copy_def embed_loop_def d_items_def d_setitem_def has_key_def dict_update_def
        embedded_to_dict_def driver_defs)

lemma save_unbound:
  assumes "collection cls = None" and "reads_class_attributes self"
    and "f \<noteq> []" and "f \<noteq> ''collection''" and "k \<noteq> []"
    and "''counters'' \<in> set (list_collection_names db)" and "counter_well_formed db k"
  shows "\<exists>db'. save cls (Some f) (Some k) self db
             = (Inl MongoDBCollectionError,
                AList.update f (VInt (counter_before db k + 2)) self, db')
           \<and> counter_value db' k = Some (VInt (counter_before db k + 2))
           \<and> calls db' = calls db @
                [Find_one_and_update_inc ''counters'' (VStr k) ''sequence_value'' 2]"
proof -
  define a where "a = counter_before db k + 2"
  from get_auto_id_step[OF assms(6,7), of 2] obtain db' where
    g: "get_auto_id k 2 db = Inr (VInt a, db')"
    and v: "counter_value db' k = Some (VInt a)"
    and l: "calls db' = calls db @ [Find_one_and_update_inc ''counters'' (VStr k) ''sequence_value'' 2]"
    unfolding a_def by blast
  have sg: "self_get_auto_id self k db = Inr (VInt a, db')"
    using assms(2) g by (simp add: self_get_auto_id_def reads_class_attributes_def)
  have "\<not> has_key ''collection'' (AList.update f (VInt a) self)"
    using assms(2,4) by (simp add: reads_class_attributes_def has_key_def update_conv')
  from self_collection_unbound[OF assms(1) this]
  have sd: "save_document cls (AList.update f (VInt a) self) db'
            = (Inl MongoDBCollectionError, AList.update f (VInt a) self, db')"
    by (simp add: save_document_def)
  have "save cls (Some f) (Some k) self db
        = (Inl MongoDBCollectionError, AList.update f (VInt a) self, db')"
    using assms(3,5) sg sd by (simp add: save_def truthy_def)
  with v l show ?thesis unfolding a_def by blast
qed

text \<open>
  C9, as amended. Let the class have no bound collection, let no field of the
  instance be named \<open>collection\<close>, \<open>_db\<close> or \<open>_get_auto_id\<close>, let the auto field
  be non-empty and not \<open>collection\<close>, the key non-empty, and let the database have
  a \<open>counters\<close> collection whose record for the key is well formed. Then
  \<^verbatim>\<open>save\<close> raises \<^verbatim>\<open>MongoDBCollectionError\<close> only after the counter has been
  incremented by 2 and the instance's auto field has been set to the new value:
  the instance and the \<open>counters\<close> collection are left changed.
\<close>

theorem save_unbound_not_atomic:
  assumes "collection cls = None" and "reads_class_attributes self"
    and "f \<noteq> []" and "f \<noteq> ''collection''" and "k \<noteq> []"
    and "''counters'' \<in> set (list_collection_names db)" and "counter_well_formed db k"
  shows "\<exists>a db'. save cls (Some f) (Some k) self db
             = (Inl MongoDBCollectionError, AList.update f (VInt a) self, db')
           \<and> a = counter_before db k + 2
           \<and> map_of (AList.update f (VInt a) self) f = Some (VInt a)
           \<and> counter_value db' k = Some (VInt a)
           \<and> counter_value db' k \<noteq> counter_value db k
           \<and> calls db' = calls db @
                [Find_one_and_update_inc ''counters'' (VStr k) ''sequence_value'' 2]"
proof -
  from save_unbound[OF assms] obtain db' where
    s: "save cls (Some f) (Some k) self db
          = (Inl MongoDBCollectionError, AList.update f (VInt (counter_before db k + 2)) self, db')"
    and v: "counter_value db' k = Some (VInt (counter_before db k + 2))"
    and l: "calls db' = calls db @ [Find_one_and_update_inc ''counters'' (VStr k) ''sequence_value'' 2]"
    by blast
  have ne: "counter_value db' k \<noteq> counter_value db k"
    unfolding v by (auto simp: counter_before_def split: option.splits pyval.splits)
  from s v l ne show ?thesis by (simp add: update_conv')
qed

theorem save_unbound_not_atomic_witness:
  "collection \<lparr>class_name = ''Document'', collection = None, annotations = [],
         class_attrs = Document_attrs, decorated = False\<rparr> = None
   \<and> reads_class_attributes [(''_id'', VNone), (''name'', VStr ''A'')]
   \<and> ''counters'' \<in> set (list_collection_names
         \<lparr>collections = [(''counters'', [[(''_id'', VStr ''seq''), (''sequence_value'', VInt 4)]])],
          next_oid = 0, calls = []\<rparr>)
   \<and> counter_well_formed
         \<lparr>collections = [(''counters'', [[(''_id'', VStr ''seq''), (''sequence_value'', VInt 4)]])],
          next_oid = 0, calls = []\<rparr> ''seq''
   \<and> (\<exists>db'. save \<lparr>class_name = ''Document'', collection = None, annotations = [],
         class_attrs = Document_attrs, decorated = False\<rparr>
         (Some ''number'') (Some ''seq'') [(''_id'', VNone), (''name'', VStr ''A'')]
         \<lparr>collections = [(''counters'', [[(''_id'', VStr ''seq''), (''sequence_value'', VInt 4)]])],
          next_oid = 0, calls = []\<rparr>
        = (Inl MongoDBCollectionError,
           [(''_id'', VNone), (''name'', VStr ''A''), (''number'', VInt 6)], db')
      \<and> counter_value db' ''seq'' = Some (VInt 6))"
proof -
  define cls where "cls = \<lparr>class_name = ''Document'', collection = None, annotations = [],
         class_attrs = Document_attrs, decorated = False\<rparr>"
  define db where "db = \<lparr>collections = [(''counters'', [[(''_id'', VStr ''seq''), (''sequence_value'', VInt 4)]])],
          next_oid = 0, calls = []\<rparr>"
  define self where "self = [(''_id'', VNone), (''name'', VStr ''A'')]"
  have c: "collection cls = None" by (simp add: cls_def)
  have p: "reads_class_attributes self"
    by (simp add: reads_class_attributes_def has_key_def self_def)
  have n: "''counters'' \<in> set (list_collection_names db)"
    by (simp add: db_def list_collection_names_def)
  have cv: "counter_value db ''seq'' = Some (VInt 4)"
    by (simp add: db_def counter_value_def stored_document_def docs_of_def id_matches_def)
  have w: "counter_well_formed db ''seq''" by (simp add: counter_well_formed_def cv)
  have b: "counter_before db ''seq'' = 4" by (simp add: counter_before_def cv)
  have f: "''number'' \<noteq> []" and fc: "''number'' \<noteq> ''collection''" and k: "''seq'' \<noteq> []"
    by simp_all
  have u: "AList.update ''number'' (VInt 6) self
           = [(''_id'', VNone), (''name'', VStr ''A''), (''number'', VInt 6)]"
    by (simp add: self_def)
  from save_unbound_not_atomic[OF c p f fc k n w] obtain a db' where
    s: "save cls (Some ''number'') (Some ''seq'') self db
          = (Inl MongoDBCollectionError, AList.update ''number'' (VInt a) self, db')"
    and a: "a = counter_before db ''seq'' + 2"
    and v: "counter_value db' ''seq'' = Some (VInt a)"
    by (elim exE conjE)
  have a6: "a = 6" unfolding a b by simp
  have "\<exists>db'. save cls (Some ''number'') (Some ''seq'') self db
        = (Inl MongoDBCollectionError,
           [(''_id'', VNone), (''name'', VStr ''A''), (''number'', VInt 6)], db')
      \<and> counter_value db' ''seq'' = Some (VInt 6)"
    using s v unfolding a6 u by (intro exI[of _ db'] conjI)
  with c p n w have "collection cls = None
      \<and> reads_class_attributes self
      \<and> ''counters'' \<in> set (list_collection_names db)
      \<and> counter_well_formed db ''seq''
      \<and> (\<exists>db'. save cls (Some ''number'') (Some ''seq'') self db
        = (Inl MongoDBCollectionError,
           [(''_id'', VNone), (''name'', VStr ''A''), (''number'', VInt 6)], db')
      \<and> counter_value db' ''seq'' = Some (VInt 6))"
    by (intro conjI)
  then show ?thesis unfolding cls_def db_def self_def .
qed

text \<open>
  Without a \<open>counters\<close> collection the same call raises the same error from
  line 142, before anything is written. With the auto field named
  \<open>collection\<close>, line 162 stores the counter value where line 164 then reads
  \<^verbatim>\<open>self.collection\<close>: no \<^verbatim>\<open>MongoDBCollectionError\<close> is raised, and the call ends in
  \<^verbatim>\<open>AttributeError\<close> at \<^verbatim>\<open>insert_one\<close>, after line 170 has removed \<open>_id\<close>.
\<close>

theorem save_unbound_without_counters:
  "save \<lparr>class_name = ''Document'', collection = None, annotations = [],
         class_attrs = Document_attrs, decorated = False\<rparr>
     (Some ''number'') (Some ''seq'') [(''_id'', VNone), (''name'', VStr ''A'')]
     \<lparr>collections = [(''users'', [])], next_oid = 0, calls = []\<rparr>
   = (Inl MongoDBCollectionError,
      [(''_id'', VNone), (''name'', VStr ''A'')],
      \<lparr>collections = [(''users'', [])], next_oid = 0, calls = []\<rparr>)
   \<and> save \<lparr>class_name = ''Document'', collection = None, annotations = [],
         class_attrs = Document_attrs, decorated = False\<rparr>
     (Some ''collection'') (Some ''seq'') [(''_id'', VNone), (''name'', VStr ''A'')]
     \<lparr>collections = [(''counters'', [])], next_oid = 0, calls = []\<rparr>
   = (Inl AttributeError,
      [(''name'', VStr ''A''), (''collection'', VInt 2)],
      \<lparr>collections = [(''counters'', [[(''_id'', VStr ''seq''), (''sequence_value'', VInt 2)]])],
       next_oid = 0,
       calls = [Find_one_and_update_inc ''counters'' (VStr ''seq'') ''sequence_value'' 2]\<rparr>)"
  by (simp add: save_def save_document_def self_get_auto_id_def self_collection_def
        get_auto_id_def truthy_def has_key_def driver_defs)

section \<open>Deleting a field\<close>

lemma find_replace_first_map:
  assumes "List.find P xs = Some x" and "P (f x)"
  shows "List.find P (replace_first P f xs) = Some (f x)"
  using assms by (induction xs) (auto split: if_splits)

lemma id_matches_delete:
  "field \<noteq> ''_id'' \<Longrightarrow> id_matches v (AList.delete field doc) = id_matches v doc"
  by (simp add: id_matches_def delete_conv')

text \<open>
  What \<^verbatim>\<open>delete_field\<close> does: on a field the instance does not hold it raises
  \<^verbatim>\<open>MongoFieldError\<close> with no call issued; on a field other than \<open>_id\<close> that the
  instance holds, with \<^verbatim>\<open>self.collection\<close> a collection, it issues one unset
  update keyed by the instance's \<open>_id\<close>, the stored record of that identity loses
  the field, and the instance is returned as it was.
\<close>

lemma delete_field_absent:
  assumes "\<not> has_key field self"
  shows "delete_field cls field self db = (Inl MongoFieldError, self, db)"
  using assms by (simp add: delete_field_def)

lemma delete_field_present:
  assumes "has_key field self" and "field \<noteq> ''_id''"
    and "self_collection cls self = Is_Collection c"
    and "map_of self ''_id'' = Some i" and "stored_document db c i = Some doc"
  shows "\<exists>db'. delete_field cls field self db = (Inr (), self, db')
           \<and> calls db' = calls db @ [Update_one_unset c i field]
           \<and> stored_document db' c i = Some (AList.delete field doc)"
proof -
  define db' where "db' = served (Update_one_unset c i field)
      (put_docs c (replace_first (id_matches i) (AList.delete field) (docs_of db c)) db)"
  have f: "List.find (id_matches i) (docs_of db c) = Some doc"
    using assms(5) by (simp add: stored_document_def)
  then have ex: "list_ex (id_matches i) (docs_of db c)"
    by (auto simp: find_Some_iff list_ex_iff)
  have m: "id_matches i doc" using f by (auto simp: find_Some_iff)
  have u: "update_one_unset c i field db = Inr (1, db')"
    using ex assms(2) by (simp add: update_one_unset_def db'_def)
  have d: "delete_field cls field self db = (Inr (), self, db')"
    using assms(1,3,4) u by (simp add: delete_field_def)
  have s: "stored_document db' c i = Some (AList.delete field doc)"
    unfolding stored_document_def db'_def docs_of_put_docs
    by (rule find_replace_first_map[OF f]) (simp add: id_matches_delete assms(2) m)
  have c: "calls db' = calls db @ [Update_one_unset c i field]"
    unfolding db'_def by (rule calls_served)
  from d s c show ?thesis by blast
qed

text \<open>
  C3. The claim: \<^verbatim>\<open>delete_field\<close> of a field the instance holds removes it from
  the instance and from the persisted record. The method, whose docstring is
  \<^verbatim>\<open>Removes a field from this document\<close>, only sends the unset update: the
  stored record loses the field, the instance keeps it, and the next \<^verbatim>\<open>save()\<close>
  of that instance, a replace of the whole record by \<^verbatim>\<open>self.__dict__\<close>, writes the
  field back.
\<close>

theorem delete_field_keeps_instance_field:
  "delete_field (create_collection_class ''User'' (Some ''users'')) ''email''
     
       [(''_id'', VOid [0, 0, 0, 0, 0, 0, 0, 0, 0, 0, 0, 7]), (''name'', VStr ''A''), (''email'', VStr ''a@x'')]
     \<lparr>collections = [(''users'', [
       [(''_id'', VOid [0, 0, 0, 0, 0, 0, 0, 0, 0, 0, 0, 7]), (''name'', VStr ''A''), (''email'', VStr ''a@x'')]])], next_oid = 1, calls = []\<rparr>
   = (Inr (),
      
       [(''_id'', VOid [0, 0, 0, 0, 0, 0, 0, 0, 0, 0, 0, 7]), (''name'', VStr ''A''), (''email'', VStr ''a@x'')],
      \<lparr>collections = [(''users'', [
       [(''_id'', VOid [0, 0, 0, 0, 0, 0, 0, 0, 0, 0, 0, 7]), (''name'', VStr ''A'')]])], next_oid = 1,
       calls = [Update_one_unset ''users'' (VOid [0, 0, 0, 0, 0, 0, 0, 0, 0, 0, 0, 7]) ''email'']\<rparr>)
   \<and> has_key ''email'' 
       [(''_id'', VOid [0, 0, 0, 0, 0, 0, 0, 0, 0, 0, 0, 7]), (''name'', VStr ''A''), (''email'', VStr ''a@x'')]
   \<and> save (create_collection_class ''User'' (Some ''users'')) None None
     
       [(''_id'', VOid [0, 0, 0, 0, 0, 0, 0, 0, 0, 0, 0, 7]), (''name'', VStr ''A''), (''email'', VStr ''a@x'')]
     \<lparr>collections = [(''users'', [
       [(''_id'', VOid [0, 0, 0, 0, 0, 0, 0, 0, 0, 0, 0, 7]), (''name'', VStr ''A'')]])], next_oid = 1,
       calls = [Update_one_unset ''users'' (VOid [0, 0, 0, 0, 0, 0, 0, 0, 0, 0, 0, 7]) ''email'']\<rparr>
   = (Inr (Update_result 1),
      
       [(''_id'', VOid [0, 0, 0, 0, 0, 0, 0, 0, 0, 0, 0, 7]), (''name'', VStr ''A''), (''email'', VStr ''a@x'')],
      \<lparr>collections = [(''users'', [
       [(''_id'', VOid [0, 0, 0, 0, 0, 0, 0, 0, 0, 0, 0, 7]), (''name'', VStr ''A''), (''email'', VStr ''a@x'')]])], next_oid = 1,
       calls = [Update_one_unset ''users'' (VOid [0, 0, 0, 0, 0, 0, 0, 0, 0, 0, 0, 7]) ''email'',
                Replace_one ''users'' (VOid [0, 0, 0, 0, 0, 0, 0, 0, 0, 0, 0, 7]) 
       [(''_id'', VOid [0, 0, 0, 0, 0, 0, 0, 0, 0, 0, 0, 7]), (''name'', VStr ''A''), (''email'', VStr ''a@x'')]]\<rparr>)"
  by (simp add: delete_field_def save_def save_document_def self_collection_def truthy_def
        has_key_def create_collection_class_def driver_defs)

end
